theory Spec2Isabelle
  imports Main "HOL-Library.Word" "HOL-Library.Sublist" "HOL-Library.Multiset"
    "HOL-Library.List_Lexorder"
begin

section \<open>JavaScript strings\<close>

text \<open>
  A JavaScript string is a sequence of UTF-16 code units; \<open>.length\<close> counts code units,
  and a regular expression without the \<open>u\<close> flag works on code units as well. ASCII
  literals of the source are written through \<open>ascii\<close>.
\<close>

type_synonym jschar = "16 word"
type_synonym jsstring = "jschar list"

definition ascii :: "string \<Rightarrow> jsstring" where
  "ascii s = map (\<lambda>c. of_nat (of_char c)) s"

text \<open>
  The code units that \<open>String.prototype.trim\<close> removes and that \<open>\s\<close> matches:
  WhiteSpace (TAB, VT, FF, SP, NBSP, ZWNBSP and the category Zs) and LineTerminator
  (LF, CR, LS, PS).
\<close>

definition isLineTerminator :: "jschar \<Rightarrow> bool" where
  "isLineTerminator c \<longleftrightarrow> c = 0x000A \<or> c = 0x000D \<or> c = 0x2028 \<or> c = 0x2029"

definition isSpace :: "jschar \<Rightarrow> bool" where
  "isSpace c \<longleftrightarrow>
     c = 0x0009 \<or> c = 0x000B \<or> c = 0x000C \<or> c = 0x0020 \<or> c = 0x00A0 \<or> c = 0xFEFF \<or>
     c = 0x1680 \<or> (0x2000 \<le> c \<and> c \<le> 0x200A) \<or> c = 0x202F \<or> c = 0x205F \<or> c = 0x3000 \<or>
     isLineTerminator c"

text \<open>\<open>s.trim()\<close>\<close>

definition trim :: "jsstring \<Rightarrow> jsstring" where
  "trim s = rev (dropWhile isSpace (rev (dropWhile isSpace s)))"

text \<open>\<open>s.replace(/\s+/g, ' ')\<close>: every maximal run of whitespace becomes one space.\<close>

function collapseWs :: "jsstring \<Rightarrow> jsstring" where
  "collapseWs [] = []"
| "collapseWs (c # cs) =
     (if isSpace c then 0x20 # collapseWs (dropWhile isSpace cs) else c # collapseWs cs)"
  by pat_completeness auto
termination
  by (relation "measure length") (auto simp: length_dropWhile_le less_Suc_eq_le)

text \<open>
  The tail of a match of \<open>.*?\]\<close> (resp. \<open>.*?\}\<close>) once the opening delimiter has been
  read: the lazy star stops at the first closing delimiter, and \<open>.\<close> does not cross a line
  terminator. The result is the text left after the match, None when there is no match.
\<close>

fun matchLazy :: "jschar \<Rightarrow> jsstring \<Rightarrow> jsstring option" where
  "matchLazy cl [] = None"
| "matchLazy cl (d # ds) =
     (if d = cl then Some ds else if isLineTerminator d then None else matchLazy cl ds)"

text \<open>\<open>s.replace(/\[.*?\]/g, '')\<close> with \<open>op = [\<close>, \<open>cl = ]\<close>; likewise for braces.\<close>

function stripDelimited :: "jschar \<Rightarrow> jschar \<Rightarrow> jsstring \<Rightarrow> jsstring" where
  "stripDelimited op cl [] = []"
| "stripDelimited op cl (c # cs) =
     (if c = op then
        (case matchLazy cl cs of
           Some r \<Rightarrow> stripDelimited op cl r
         | None \<Rightarrow> c # stripDelimited op cl cs)
      else c # stripDelimited op cl cs)"
  by pat_completeness auto
termination
proof (relation "measure (\<lambda>(op, cl, s). length s)")
  fix op cl :: jschar and c :: jschar and cs r :: jsstring
  assume "c = op" and m: "matchLazy cl cs = Some r"
  have "matchLazy cl xs = Some r \<Longrightarrow> length r < Suc (length xs)" for xs
    by (induction xs) (auto split: if_splits)
  from this [OF m] show "((op, cl, r), op, cl, c # cs) \<in> measure (\<lambda>(op, cl, s). length s)"
    by simp
qed auto

text \<open>Line 243 of \<open>extractTextFromHTML\<close>.\<close>

definition normalizeText :: "jsstring \<Rightarrow> jsstring" where
  "normalizeText text =
     trim (stripDelimited 0x7B 0x7D (stripDelimited 0x5B 0x5D (collapseWs text)))"


text \<open>\<open>s.includes(sub)\<close>\<close>

fun includes_js :: "jsstring \<Rightarrow> jsstring \<Rightarrow> bool" where
  "includes_js [] sub = (sub = [])"
| "includes_js (c # cs) sub = (prefix sub (c # cs) \<or> includes_js cs sub)"

text \<open>\<open>s.padEnd(w)\<close>, \<open>s.padStart(w)\<close> and \<open>'c'.repeat(n)\<close>; a string already \<open>w\<close> long or longer
  is returned as it is.\<close>

definition padEnd :: "nat \<Rightarrow> jsstring \<Rightarrow> jsstring" where
  "padEnd w s = s @ replicate (w - length s) 0x20"

definition padStart :: "nat \<Rightarrow> jsstring \<Rightarrow> jsstring" where
  "padStart w s = replicate (w - length s) 0x20 @ s"

definition repeat :: "jschar \<Rightarrow> nat \<Rightarrow> jsstring" where
  "repeat c n = replicate n c"

text \<open>\<open>xs.join(sep)\<close>\<close>

fun join :: "jsstring \<Rightarrow> jsstring list \<Rightarrow> jsstring" where
  "join sep [] = []"
| "join sep [x] = x"
| "join sep (x # y # ys) = x @ sep @ join sep (y # ys)"

text \<open>\<open>n.toString()\<close> for a non-negative integer (file sizes and lengths): decimal digits.\<close>

fun toString :: "nat \<Rightarrow> jsstring" where
  "toString n =
     (if n < 10 then [0x30 + of_nat n] else toString (n div 10) @ [0x30 + of_nat (n mod 10)])"

section \<open>Paths (POSIX)\<close>

text \<open>
  \<open>path.resolve\<close> and \<open>path.relative\<close> of Node on a POSIX host. A path is split at
  \<open>/\<close>; empty and \<open>.\<close> segments are dropped and \<open>..\<close> removes the segment before it
  (nothing at the root). \<open>resolve\<close> yields an absolute path without a trailing slash.
\<close>

fun splitSlash :: "jsstring \<Rightarrow> jsstring list" where
  "splitSlash [] = [[]]"
| "splitSlash (c # cs) =
     (if c = 0x2F then [] # splitSlash cs
      else (case splitSlash cs of [] \<Rightarrow> [[c]] | p # ps \<Rightarrow> (c # p) # ps))"

definition dotdot :: jsstring where
  "dotdot = [0x2E, 0x2E]"

fun normalizeParts :: "jsstring list \<Rightarrow> jsstring list \<Rightarrow> jsstring list" where
  "normalizeParts acc [] = acc"
| "normalizeParts acc (p # ps) =
     (if p = [] \<or> p = [0x2E] then normalizeParts acc ps
      else if p = dotdot then normalizeParts (butlast acc) ps
      else normalizeParts (acc @ [p]) ps)"

definition resolveParts :: "jsstring \<Rightarrow> jsstring \<Rightarrow> jsstring list" where
  "resolveParts wd p =
     (if p \<noteq> [] \<and> hd p = 0x2F then normalizeParts [] (splitSlash p)
      else normalizeParts [] (splitSlash wd @ splitSlash p))"

definition resolve :: "jsstring \<Rightarrow> jsstring \<Rightarrow> jsstring" where
  "resolve wd p = 0x2F # join [0x2F] (resolveParts wd p)"

fun dropCommon :: "jsstring list \<Rightarrow> jsstring list \<Rightarrow> jsstring list \<times> jsstring list" where
  "dropCommon (x # xs) (y # ys) = (if x = y then dropCommon xs ys else (x # xs, y # ys))"
| "dropCommon xs ys = (xs, ys)"

definition relative :: "jsstring \<Rightarrow> jsstring \<Rightarrow> jsstring \<Rightarrow> jsstring" where
  "relative wd from to =
     (case dropCommon (resolveParts wd from) (resolveParts wd to) of
        (up, down) \<Rightarrow> join [0x2F] (map (\<lambda>_. dotdot) up @ down))"


section \<open>The host\<close>

text \<open>
  What the program takes from outside itself: the file system (\<open>fs-extra\<close>, \<open>glob\<close>), the
  process (\<open>process.cwd()\<close>), the locale (\<open>localeCompare\<close>, \<open>toLocaleString\<close>,
  \<open>toLowerCase\<close>), the hash (\<open>crypto\<close>) and the HTML parser (\<open>cheerio\<close>, over a document
  type \<open>'dom\<close> with elements \<open>'el\<close>).
  \<^item> \<open>readFile p\<close> is \<open>fs.readFile(p, 'utf8')\<close>: \<open>Inr\<close> the content, \<open>Inl\<close> the \<open>message\<close>
    of the error thrown;
  \<^item> \<open>stat p\<close> is \<open>fs.stat(p)\<close>: the \<open>size\<close>, None when it rejects;
  \<^item> \<open>glob dir pattern\<close> is what \<open>glob\<close> returns for \<open>pattern\<close> joined to \<open>dir\<close>;
  \<^item> \<open>load html\<close> is \<open>cheerio.load(html)\<close>, \<open>remove sel d\<close> is \<open>$(sel).remove()\<close>,
    \<open>textOf sel d\<close> is \<open>$(sel).text()\<close>, \<open>styled d\<close> the elements \<open>$('[style]')\<close>,
    \<open>attrStyle d el\<close> is \<open>$(el).attr('style')\<close> and \<open>removeEl el d\<close> is \<open>$(el).remove()\<close>.
    Each of them may throw (a document nested too deep exhausts the stack): \<open>Inl\<close> is the
    \<open>message\<close> of the error thrown, \<open>Inr\<close> the value returned.
\<close>

record ('dom, 'el) host =
  cwd :: jsstring
  pathExists :: "jsstring \<Rightarrow> bool"
  glob :: "jsstring \<Rightarrow> jsstring \<Rightarrow> jsstring list"
  readFile :: "jsstring \<Rightarrow> jsstring + jsstring"
  stat :: "jsstring \<Rightarrow> nat option"
  digestHex :: "jsstring \<Rightarrow> jsstring"
  localeCompare :: "jsstring \<Rightarrow> jsstring \<Rightarrow> int"
  toLocaleString :: "nat \<Rightarrow> jsstring"
  toLowerCase :: "jsstring \<Rightarrow> jsstring"
  load :: "jsstring \<Rightarrow> jsstring + 'dom"
  remove :: "jsstring \<Rightarrow> 'dom \<Rightarrow> jsstring + 'dom"
  styled :: "'dom \<Rightarrow> jsstring + 'el list"
  attrStyle :: "'dom \<Rightarrow> 'el \<Rightarrow> jsstring + jsstring option"
  removeEl :: "'el \<Rightarrow> 'dom \<Rightarrow> jsstring + 'dom"
  textOf :: "jsstring \<Rightarrow> 'dom \<Rightarrow> jsstring + jsstring"

text \<open>The command line, as far as it decides what is written.\<close>

record argv =
  src :: jsstring
  pattern :: jsstring
  concurrency :: int

text \<open>
  What may differ between two runs on the same host: the order in which the tasks settle
  and the two values of \<open>nowIso()\<close>.
\<close>

record run =
  settleOrder :: "nat list"
  indexStamp :: jsstring
  corpusStamp :: jsstring

section \<open>Extraction\<close>

text \<open>The object returned by \<open>extractTextFromHTML\<close>; \<open>r_error\<close> is None when the property
  is absent.\<close>

record extractResult =
  r_filePath :: jsstring
  r_text :: jsstring
  r_error :: "jsstring option"

text \<open>Inside the \<open>try\<close>: a statement that throws ends the block with its error, otherwise
  the block goes on with the value.\<close>

definition thenTry :: "'e + 'a \<Rightarrow> ('a \<Rightarrow> 'e + 'b) \<Rightarrow> 'e + 'b" where
  "thenTry x f = (case x of Inl e \<Rightarrow> Inl e | Inr v \<Rightarrow> f v)"

text \<open>Lines 219 to 228: the removal of noise and hidden content. \<open>hiddenByStyle\<close> is the
  test of lines 222 and 223 on the value of the \<open>style\<close> attribute.\<close>

definition hiddenByStyle :: "('dom, 'el) host \<Rightarrow> jsstring option \<Rightarrow> bool" where
  "hiddenByStyle h a =
     (let s = toLowerCase h (case a of None \<Rightarrow> [] | Some v \<Rightarrow> v)
      in includes_js s (ascii ''display:none'') \<or> includes_js s (ascii ''visibility:hidden''))"

fun removeHidden :: "('dom, 'el) host \<Rightarrow> 'el list \<Rightarrow> 'dom \<Rightarrow> jsstring + 'dom" where
  "removeHidden h [] d = Inr d"
| "removeHidden h (el # els) d =
     (case attrStyle h d el of
        Inl e \<Rightarrow> Inl e
      | Inr a \<Rightarrow>
          if hiddenByStyle h a
          then (case removeEl h el d of Inl e \<Rightarrow> Inl e | Inr d' \<Rightarrow> removeHidden h els d')
          else removeHidden h els d)"

definition removeNoise :: "('dom, 'el) host \<Rightarrow> 'dom \<Rightarrow> jsstring + 'dom" where
  "removeNoise h d0 =
     thenTry (remove h (ascii
         ''script, style, noscript, iframe, svg, img, meta, link, header, footer, nav, aside'') d0)
       (\<lambda>d1. thenTry (remove h (ascii ''[aria-hidden=true], [hidden]'') d1)
       (\<lambda>d2. thenTry (styled h d2)
       (\<lambda>els. thenTry (removeHidden h els d2)
       (\<lambda>d3. remove h (ascii ''next-route-announcer, [data-nextjs-page], [role='' @ [0x22] @
            ascii ''navigation'' @ [0x22] @ ascii ''], .skip-link'') d3))))"

text \<open>Lines 231 to 240: the content selectors in their priority order, and the loop, which
  asks the parser for the text of one selector after the other and stops at the first that
  is long enough.\<close>

definition selectors :: "jsstring list" where
  "selectors =
     [ascii ''main'', ascii ''article'',
      ascii ''[role='' @ [0x22] @ ascii ''main'' @ [0x22] @ ascii '']'',
      ascii ''.main-content'', ascii ''.content'', ascii ''.prose'', ascii ''.container'',
      ascii ''body'']"

fun selectLoop :: "(jsstring \<Rightarrow> jsstring + jsstring) \<Rightarrow> jsstring list \<Rightarrow> jsstring + jsstring" where
  "selectLoop txt [] = Inr []"
| "selectLoop txt (sel # sels) =
     (case txt sel of
        Inl e \<Rightarrow> Inl e
      | Inr t \<Rightarrow> if t \<noteq> [] \<and> 50 < length (trim t) then Inr t else selectLoop txt sels)"

definition selectText :: "(jsstring \<Rightarrow> jsstring + jsstring) \<Rightarrow> jsstring + jsstring" where
  "selectText txt =
     thenTry (selectLoop txt selectors) (\<lambda>t. if t = [] then txt (ascii ''body'') else Inr t)"

text \<open>Lines 216 to 240, between the read and the normalisation.\<close>

definition parseAndSelect :: "('dom, 'el) host \<Rightarrow> jsstring \<Rightarrow> jsstring + jsstring" where
  "parseAndSelect h html =
     thenTry (load h html)
       (\<lambda>d0. thenTry (removeNoise h d0)
       (\<lambda>d. selectText (\<lambda>sel. textOf h sel d)))"

text \<open>
  \<open>extractTextFromHTML\<close>. The \<open>catch\<close> branch is taken when \<open>readFile\<close> or any call of the
  parser throws. The warning on the console is not part of the model.
\<close>

definition extractTextFromHTML :: "('dom, 'el) host \<Rightarrow> jsstring \<Rightarrow> extractResult" where
  "extractTextFromHTML h filePath =
     (case readFile h filePath of
        Inl message \<Rightarrow> \<lparr>r_filePath = filePath, r_text = [], r_error = Some message\<rparr>
      | Inr html \<Rightarrow>
          if html = [] \<or> length (trim html) = 0
          then \<lparr>r_filePath = filePath, r_text = [], r_error = None\<rparr>
          else
            (case parseAndSelect h html of
               Inl message \<Rightarrow> \<lparr>r_filePath = filePath, r_text = [], r_error = Some message\<rparr>
             | Inr t \<Rightarrow> \<lparr>r_filePath = filePath, r_text = normalizeText t, r_error = None\<rparr>))"

section \<open>The tasks of \<open>main\<close>\<close>

text \<open>The object each task returns (lines 392 to 400).\<close>

record extraction =
  e_path :: jsstring
  e_rel :: jsstring
  e_size :: nat
  e_textLength :: nat
  e_text :: jsstring
  e_hash :: jsstring
  e_error :: "jsstring option"

text \<open>\<open>res.error || null\<close>: an absent property and the empty string both give \<open>null\<close>.\<close>

definition orNull :: "jsstring option \<Rightarrow> jsstring option" where
  "orNull e = (case e of None \<Rightarrow> None | Some m \<Rightarrow> if m = [] then None else Some m)"

definition task :: "('dom, 'el) host \<Rightarrow> jsstring \<Rightarrow> extraction" where
  "task h f =
     (let res = extractTextFromHTML h f;
          statSize = (case stat h f of None \<Rightarrow> 0 | Some n \<Rightarrow> n)
      in \<lparr>e_path = f,
          e_rel = relative (cwd h) (cwd h) f,
          e_size = statSize,
          e_textLength = length (r_text res),
          e_text = r_text res,
          e_hash = digestHex h (r_text res),
          e_error = orNull (r_error res)\<rparr>)"

text \<open>
  \<open>await Promise.all(tasks)\<close>: each task, when it settles, puts its value into the slot of
  its index; the array is handed over once every slot is filled (None: never).
\<close>

definition promiseAll :: "nat list \<Rightarrow> 'a list \<Rightarrow> 'a list option" where
  "promiseAll order tasks =
     those (fold (\<lambda>i slots. if i < length slots then slots[i := Some (tasks ! i)] else slots)
              order (replicate (length tasks) None))"

text \<open>
  \<open>xs.sort(cmp)\<close>, a stable sort: insertion from the right, an element going before the
  first one it does not compare greater than.
\<close>

fun insertBy :: "('a \<Rightarrow> 'a \<Rightarrow> int) \<Rightarrow> 'a \<Rightarrow> 'a list \<Rightarrow> 'a list" where
  "insertBy cmp x [] = [x]"
| "insertBy cmp x (y # ys) = (if cmp x y \<le> 0 then x # y # ys else y # insertBy cmp x ys)"

definition sortBy :: "('a \<Rightarrow> 'a \<Rightarrow> int) \<Rightarrow> 'a list \<Rightarrow> 'a list" where
  "sortBy cmp xs = foldr (insertBy cmp) xs []"

text \<open>\<open>listHtmlFiles\<close>: \<open>Array.from(new Set(...))\<close> keeps the first occurrence of each path,
  and \<open>sort()\<close> without a comparator orders strings by their code units.\<close>

definition dedupe :: "'a list \<Rightarrow> 'a list" where
  "dedupe xs = rev (remdups (rev xs))"

definition listHtmlFiles :: "('dom, 'el) host \<Rightarrow> jsstring \<Rightarrow> jsstring \<Rightarrow> jsstring list" where
  "listHtmlFiles h dir pat = sort (dedupe (map (resolve (cwd h)) (glob h dir pat)))"


section \<open>The table of contents\<close>

text \<open>The objects of \<open>itemsForOutput\<close> (lines 410 to 415).\<close>

record item =
  i_path :: jsstring
  i_text :: jsstring
  i_size :: nat
  i_textLength :: nat

definition headers_filePath :: jsstring where
  "headers_filePath = ascii ''File Path''"

definition headers_size :: jsstring where
  "headers_size = ascii ''Size''"

definition headers_chars :: jsstring where
  "headers_chars = ascii ''Chars''"

text \<open>The path a row of the table shows: relative to the source directory (line 156).\<close>

definition tocPath :: "('dom, 'el) host \<Rightarrow> jsstring \<Rightarrow> item \<Rightarrow> jsstring" where
  "tocPath h srcDir it = relative (cwd h) srcDir (i_path it)"

text \<open>Lines 135 to 137: \<open>Math.max(...items.map(f), header.length)\<close>.\<close>

definition maxPathLength :: "('dom, 'el) host \<Rightarrow> jsstring \<Rightarrow> item list \<Rightarrow> nat" where
  "maxPathLength h srcDir items =
     fold max (map (\<lambda>it. length (tocPath h srcDir it)) items) (length headers_filePath)"

definition maxSizeLength :: "item list \<Rightarrow> nat" where
  "maxSizeLength items =
     fold max (map (\<lambda>it. length (toString (i_size it))) items) (length headers_size)"

definition maxCharsLength :: "item list \<Rightarrow> nat" where
  "maxCharsLength items =
     fold max (map (\<lambda>it. length (toString (i_textLength it))) items) (length headers_chars)"

text \<open>\<open>makeDivider\<close>, with the three widths it closes over as arguments.\<close>

definition makeDivider ::
  "nat \<Rightarrow> nat \<Rightarrow> nat \<Rightarrow> jschar \<Rightarrow> jschar \<Rightarrow> jschar \<Rightarrow> jschar \<Rightarrow> jsstring" where
  "makeDivider wp ws wc left mid1 mid2 right =
     left # repeat 0x2550 (wp + 2) @ mid1 # repeat 0x2550 (ws + 2) @
     mid2 # repeat 0x2550 (wc + 2) @ [right]"

text \<open>A row of three cells: \<open>\<parallel> path | size | chars \<parallel>\<close> in box-drawing characters.\<close>

definition tocRow :: "nat \<Rightarrow> nat \<Rightarrow> nat \<Rightarrow> jsstring \<Rightarrow> jsstring \<Rightarrow> jsstring \<Rightarrow> jsstring" where
  "tocRow wp ws wc p sz ch =
     [0x2551, 0x20] @ padEnd wp p @ [0x20] @
     [0x2502, 0x20] @ padStart ws sz @ [0x20] @
     [0x2502, 0x20] @ padStart wc ch @ [0x20, 0x2551]"

definition tocBodyRow ::
  "('dom, 'el) host \<Rightarrow> jsstring \<Rightarrow> nat \<Rightarrow> nat \<Rightarrow> nat \<Rightarrow> item \<Rightarrow> jsstring" where
  "tocBodyRow h srcDir wp ws wc it =
     tocRow wp ws wc (tocPath h srcDir it) (toString (i_size it)) (toString (i_textLength it))"

definition tocLines :: "('dom, 'el) host \<Rightarrow> item list \<Rightarrow> jsstring \<Rightarrow> jsstring list" where
  "tocLines h items srcDir =
     (let wp = maxPathLength h srcDir items;
          ws = maxSizeLength items;
          wc = maxCharsLength items;
          headerTop = makeDivider wp ws wc 0x2554 0x2564 0x2564 0x2557;
          headerMid = makeDivider wp ws wc 0x255F 0x253C 0x253C 0x2562;
          footerBot = makeDivider wp ws wc 0x255A 0x2567 0x2567 0x255D;
          headerRow = tocRow wp ws wc headers_filePath headers_size headers_chars;
          body = join [0x0A] (map (tocBodyRow h srcDir wp ws wc) items)
      in [headerTop, headerRow, headerMid, body, footerBot])"

definition tocSummary :: "('dom, 'el) host \<Rightarrow> item list \<Rightarrow> jsstring" where
  "tocSummary h items =
     join [0x0A]
       [[0x0A] @ ascii ''Total files: '' @ toString (length items),
        ascii ''Total characters: '' @
          toLocaleString h (fold (\<lambda>it sum. sum + i_textLength it) items 0),
        []]"

definition makeTocSection :: "('dom, 'el) host \<Rightarrow> item list \<Rightarrow> jsstring \<Rightarrow> jsstring" where
  "makeTocSection h items srcDir =
     (if items = [] then ascii ''No files were processed.''
      else join [0x0A] (tocLines h items srcDir) @ tocSummary h items)"

section \<open>The corpus\<close>

definition makeFileHeader :: "jsstring \<Rightarrow> jsstring" where
  "makeFileHeader relPath =
     (let line = repeat 0x2550 80
      in [0x0A] @ line @ [0x0A, 0x20, 0xD83D, 0xDCC4] @ ascii '' FILE: '' @ relPath @
         [0x0A] @ line @ [0x0A])"

text \<open>The path a section header shows: relative to the working directory (line 358).\<close>

definition sectionPath :: "('dom, 'el) host \<Rightarrow> item \<Rightarrow> jsstring" where
  "sectionPath h it = relative (cwd h) (cwd h) (i_path it)"

text \<open>The two writes of the loop at lines 357 to 361, for one item.\<close>

definition section_writes :: "('dom, 'el) host \<Rightarrow> item \<Rightarrow> jsstring list" where
  "section_writes h it =
     [makeFileHeader (sectionPath h it) @ [0x0A],
      if i_text it \<noteq> [] \<and> 0 < length (i_text it) then i_text it @ [0x0A, 0x0A]
      else ascii ''[No extractable text]'' @ [0x0A, 0x0A]]"

text \<open>\<open>generateLLMTextStream\<close>: the strings written to the stream, in the order written. The
  file is their concatenation.\<close>

definition generateLLMTextStream ::
  "('dom, 'el) host \<Rightarrow> jsstring \<Rightarrow> item list \<Rightarrow> jsstring \<Rightarrow> jsstring list" where
  "generateLLMTextStream h now items srcDir =
     [ascii ''Generated: '' @ now @ [0x0A],
      ascii ''Source directory: '' @ srcDir @ [0x0A],
      ascii ''Files processed: '' @ toString (length items) @ [0x0A, 0x0A],
      makeTocSection h items srcDir @ [0x0A]]
     @ concat (map (section_writes h) items)"

section \<open>The index and \<open>main\<close>\<close>

text \<open>The object given to \<open>JSON.stringify\<close> for \<open>pages.json\<close> (lines 418 to 430).\<close>

record page =
  p_path :: jsstring
  p_size :: nat
  p_textLength :: nat
  p_hash :: jsstring
  p_error :: "jsstring option"

record index =
  generatedAt :: jsstring
  source :: jsstring
  pages :: "page list"

record artifacts =
  pagesJson :: index
  llmTxt :: "jsstring list"

datatype fatal = SourceMissing | NoHtmlFiles | Unhandled

definition SRC_DIR :: "('dom, 'el) host \<Rightarrow> argv \<Rightarrow> jsstring" where
  "SRC_DIR h a = resolve (cwd h) (src a)"

text \<open>\<open>!e.error\<close>\<close>

definition noError :: "extraction \<Rightarrow> bool" where
  "noError e = (case e_error e of None \<Rightarrow> True | Some m \<Rightarrow> m = [])"

text \<open>Lines 403 to 406: the array of \<open>Promise.all\<close>, then sorted in place.\<close>

definition sortExtracted :: "('dom, 'el) host \<Rightarrow> extraction list \<Rightarrow> extraction list" where
  "sortExtracted h extracted = sortBy (\<lambda>a b. localeCompare h (e_rel a) (e_rel b)) extracted"

definition successfulExtractions :: "extraction list \<Rightarrow> extraction list" where
  "successfulExtractions extracted = filter noError extracted"

definition itemsForOutput :: "extraction list \<Rightarrow> item list" where
  "itemsForOutput extracted =
     map (\<lambda>e. \<lparr>i_path = e_path e, i_text = e_text e, i_size = e_size e,
               i_textLength = e_textLength e\<rparr>) (successfulExtractions extracted)"

definition pagesOf :: "extraction list \<Rightarrow> page list" where
  "pagesOf extracted =
     map (\<lambda>e. \<lparr>p_path = e_rel e, p_size = e_size e, p_textLength = e_textLength e,
               p_hash = e_hash e, p_error = e_error e\<rparr>) (successfulExtractions extracted)"

text \<open>
  \<open>main\<close>. \<open>Inl\<close> is a call of \<open>fatal\<close> (the process exits with 1 and nothing is written),
  None a run whose \<open>Promise.all\<close> never settles. \<open>pLimit\<close> throws for a concurrency below 1,
  which the \<open>catch\<close> of \<open>main\<close> turns into \<open>fatal\<close>. Failing writes and the optional UI file
  are left out.
\<close>

definition executor :: "('dom, 'el) host \<Rightarrow> run \<Rightarrow> jsstring list \<Rightarrow> extraction list option" where
  "executor h r files = promiseAll (settleOrder r) (map (task h) files)"

definition main :: "('dom, 'el) host \<Rightarrow> argv \<Rightarrow> run \<Rightarrow> (fatal + artifacts) option" where
  "main h a r =
     (if \<not> pathExists h (SRC_DIR h a) then Some (Inl SourceMissing)
      else
        let files = listHtmlFiles h (SRC_DIR h a) (pattern a) in
        if files = [] then Some (Inl NoHtmlFiles)
        else if concurrency a < 1 then Some (Inl Unhandled)
        else
          (case executor h r files of
             None \<Rightarrow> None
           | Some results \<Rightarrow>
               let extracted = sortExtracted h results in
               Some (Inr \<lparr>pagesJson = \<lparr>generatedAt = indexStamp r, source = SRC_DIR h a,
                                        pages = pagesOf extracted\<rparr>,
                          llmTxt = generateLLMTextStream h (corpusStamp r)
                                     (itemsForOutput extracted) (SRC_DIR h a)\<rparr>)))"


section \<open>An example host\<close>

text \<open>
  A small host on which the definitions are run: the working directory is \<open>/w\<close>, the
  source directory \<open>/w/site\<close> holds \<open>a.html\<close> (readable) and \<open>b.html\<close> (its read fails with
  \<open>EACCES\<close>, its \<open>stat\<close> succeeds with 120 bytes). The parser is a plain one: the
  selector \<open>.content\<close> yields the document as it is, \<open>main\<close> its first five characters,
  \<open>body\<close> the document after the word \<open>Menu\<close>, and no other selector matches. Strings are
  compared by code units.
\<close>

definition codeUnitCompare :: "jsstring \<Rightarrow> jsstring \<Rightarrow> int" where
  "codeUnitCompare a b = (if a < b then - 1 else if a = b then 0 else 1)"

definition exampleText :: jsstring where
  "exampleText = ascii ''Hello world, this is a   sufficiently [1] long piece of text. ''"

definition exampleHost :: "(jsstring, unit) host" where
  "exampleHost =
     \<lparr>cwd = ascii ''/w'',
      pathExists = (\<lambda>p. True),
      glob = (\<lambda>dir pat. [ascii ''/w/site/b.html'', ascii ''/w/site/a.html'']),
      readFile = (\<lambda>p. if p = ascii ''/w/site/a.html'' then Inr exampleText
                        else Inl (ascii ''EACCES'')),
      stat = (\<lambda>p. Some 120),
      digestHex = (\<lambda>t. toString (length t)),
      localeCompare = codeUnitCompare,
      toLocaleString = toString,
      toLowerCase = id,
      load = Inr,
      remove = (\<lambda>sel d. Inr d),
      styled = (\<lambda>d. Inr []),
      attrStyle = (\<lambda>d el. Inr None),
      removeEl = (\<lambda>el d. Inr d),
      textOf = (\<lambda>sel d. if sel = ascii ''main'' then Inr (take 5 d)
                          else if sel = ascii ''.content'' then Inr d
                          else if sel = ascii ''body'' then Inr (ascii ''Menu '' @ d)
                          else Inr [])\<rparr>"

definition exampleArgv :: argv where
  "exampleArgv = \<lparr>src = ascii ''site'', pattern = ascii ''**/*.htm?(l)'', concurrency = 10\<rparr>"

definition exampleRun :: run where
  "exampleRun = \<lparr>settleOrder = [1, 0], indexStamp = ascii ''T1'', corpusStamp = ascii ''T2''\<rparr>"

text \<open>
  The same host under a collation that ignores the case of ASCII letters, as the first
  level of a locale's collation does, with the files \<open>B.html\<close> and \<open>a.html\<close>.
\<close>

definition foldCase :: "jschar \<Rightarrow> jschar" where
  "foldCase c = (if 0x41 \<le> c \<and> c \<le> 0x5A then c + 0x20 else c)"

definition caseBlindCompare :: "jsstring \<Rightarrow> jsstring \<Rightarrow> int" where
  "caseBlindCompare a b = codeUnitCompare (map foldCase a) (map foldCase b)"

definition collatingHost :: "(jsstring, unit) host" where
  "collatingHost =
     exampleHost\<lparr>localeCompare := caseBlindCompare,
                 glob := (\<lambda>dir pat. [ascii ''/w/site/B.html'', ascii ''/w/site/a.html'']),
                 readFile := (\<lambda>p. Inr exampleText)\<rparr>"

text \<open>A second run on the example host: the tasks settle in the other order, later.\<close>

definition exampleRerun :: run where
  "exampleRerun = \<lparr>settleOrder = [0, 1], indexStamp = ascii ''T3'', corpusStamp = ascii ''T4''\<rparr>"


text \<open>The example host with the same files listed by \<open>glob\<close> in another order, one twice.\<close>

definition relistedGlob :: "jsstring \<Rightarrow> jsstring \<Rightarrow> jsstring list" where
  "relistedGlob dir pat = [ascii ''/w/site/a.html'', ascii ''/w/site/b.html'', ascii ''/w/site/a.html'']"


text \<open>
  A host whose working directory is \<open>/x\<close>, run with the source directory \<open>/y\<close> and a
  pattern that leaves it, \<open>../other/*.html\<close>, for which \<open>glob\<close> finds \<open>/other/f.html\<close>.
\<close>

definition outsideHost :: "(jsstring, unit) host" where
  "outsideHost =
     exampleHost\<lparr>cwd := ascii ''/x'',
                 glob := (\<lambda>dir pat. [ascii ''/other/f.html'']),
                 readFile := (\<lambda>p. Inr exampleText)\<rparr>"

definition outsideArgv :: argv where
  "outsideArgv = \<lparr>src = ascii ''/y'', pattern = ascii ''../other/*.html'', concurrency = 10\<rparr>"

definition outsideItem :: item where
  "outsideItem = \<lparr>i_path = ascii ''/other/f.html'', i_text = ascii ''Hello'', i_size = 120,
                   i_textLength = 5\<rparr>"

definition exampleItem :: item where
  "exampleItem = \<lparr>i_path = ascii ''/w/site/a.html'', i_text = ascii ''Hello'', i_size = 120,
                   i_textLength = 5\<rparr>"

section \<open>The specification's wording\<close>


section \<open>Shared facts\<close>

lemma fold_max_Max: "fold max xs (a::nat) = Max (insert a (set xs))"
  by (metis Max.set_eq_fold list.simps(15))

lemma fold_max_ge_init: "(a::nat) \<le> fold max xs a"
  by (simp add: fold_max_Max)

lemma fold_max_ge_elem: "x \<in> set xs \<Longrightarrow> (x::nat) \<le> fold max xs a"
  by (simp add: fold_max_Max)

lemma length_padEnd: "length s \<le> w \<Longrightarrow> length (padEnd w s) = w"
  by (simp add: padEnd_def)

lemma length_padStart: "length s \<le> w \<Longrightarrow> length (padStart w s) = w"
  by (simp add: padStart_def)

lemma fold_settle:
  "length slots = length tasks \<Longrightarrow>
   fold (\<lambda>i slots. if i < length slots then slots[i := Some (tasks ! i)] else slots) order slots =
   map (\<lambda>i. if i \<in> set order then Some (tasks ! i) else slots ! i) [0..<length tasks]"
proof (induction order arbitrary: slots)
  case Nil
  have "map ((!) slots) [0..<length slots] = slots" by (rule map_nth)
  with Nil show ?case by simp
next
  case (Cons j order)
  let ?s = "if j < length slots then slots[j := Some (tasks ! j)] else slots"
  have len: "length ?s = length tasks" using Cons.prems by simp
  have "fold (\<lambda>i slots. if i < length slots then slots[i := Some (tasks ! i)] else slots) (j # order) slots
      = map (\<lambda>i. if i \<in> set order then Some (tasks ! i) else ?s ! i) [0..<length tasks]"
    using Cons.IH [OF len] by simp
  also have "\<dots> = map (\<lambda>i. if i \<in> set (j # order) then Some (tasks ! i) else slots ! i) [0..<length tasks]"
  proof (rule map_cong [OF refl])
    fix i assume "i \<in> set [0..<length tasks]"
    then have "i < length slots" using Cons.prems by simp
    then show "(if i \<in> set order then Some (tasks ! i) else ?s ! i) =
       (if i \<in> set (j # order) then Some (tasks ! i) else slots ! i)"
      by (cases "i = j") (simp_all add: nth_list_update)
  qed
  finally show ?case .
qed

lemma those_map_Some: "those (map Some xs) = Some xs"
  by (induction xs) auto

lemma promiseAll_settled:
  assumes "set order = {0..<length tasks}"
  shows "promiseAll order tasks = Some tasks"
proof -
  have "fold (\<lambda>i slots. if i < length slots then slots[i := Some (tasks ! i)] else slots) order
          (replicate (length tasks) None) = map (\<lambda>i. Some (tasks ! i)) [0..<length tasks]"
    using assms by (subst fold_settle) auto
  also have "\<dots> = map Some tasks"
    by (simp add: map_nth flip: map_map [unfolded comp_def])
  finally show ?thesis
    by (simp add: promiseAll_def those_map_Some)
qed

lemma mset_upt_set: "mset order = mset [0..<n] \<Longrightarrow> set order = {0..<n}"
  by (metis atLeastLessThan_upt set_mset_mset)

lemma selectLoop_find:
  assumes "\<forall>sel \<in> set sels. txt sel = Inr (t sel)"
  shows "selectLoop txt sels =
     Inr (case find (\<lambda>sel. 50 < length (trim (t sel))) sels of None \<Rightarrow> [] | Some sel \<Rightarrow> t sel)"
  using assms
proof (induction sels)
  case Nil
  show ?case by simp
next
  case (Cons sel sels)
  have "t sel \<noteq> []" if "50 < length (trim (t sel))"
    using that by (auto simp: trim_def)
  with Cons show ?case by auto
qed

lemma selectText_find:
  assumes "\<forall>sel \<in> set selectors. txt sel = Inr (t sel)"
  shows "selectText txt =
     Inr (case find (\<lambda>sel. 50 < length (trim (t sel))) selectors of
            None \<Rightarrow> t (ascii ''body'') | Some sel \<Rightarrow> t sel)"
proof -
  have body: "txt (ascii ''body'') = Inr (t (ascii ''body''))"
    using assms by (simp add: selectors_def)
  show ?thesis
  proof (cases "find (\<lambda>sel. 50 < length (trim (t sel))) selectors")
    case None
    then show ?thesis
      by (simp add: selectText_def thenTry_def selectLoop_find [OF assms] body)
  next
    case (Some sel)
    then have "50 < length (trim (t sel))"
      by (auto simp: find_Some_iff)
    then have "t sel \<noteq> []"
      by (auto simp: trim_def)
    with Some show ?thesis
      by (simp add: selectText_def thenTry_def selectLoop_find [OF assms])
  qed
qed

lemma set_insertBy: "set (insertBy cmp x ys) = insert x (set ys)"
  by (induction ys) auto

lemma mset_insertBy: "mset (insertBy cmp x ys) = add_mset x (mset ys)"
  by (induction ys) auto

lemma mset_sortBy: "mset (sortBy cmp xs) = mset xs"
  by (induction xs) (simp_all add: sortBy_def mset_insertBy)

lemma set_sortBy: "set (sortBy cmp xs) = set xs"
  by (metis mset_sortBy set_mset_mset)

lemma length_sortBy: "length (sortBy cmp xs) = length xs"
  by (metis mset_sortBy size_mset)

lemma sorted_insertBy:
  assumes srt: "sorted_wrt (\<lambda>a b. cmp a b \<le> 0) ys"
    and tot: "\<And>b. b \<in> set ys \<Longrightarrow> cmp x b \<le> 0 \<or> cmp b x \<le> 0"
    and tr: "\<And>b c. b \<in> set ys \<Longrightarrow> c \<in> set ys \<Longrightarrow> cmp x b \<le> 0 \<Longrightarrow> cmp b c \<le> 0
               \<Longrightarrow> cmp x c \<le> 0"
  shows "sorted_wrt (\<lambda>a b. cmp a b \<le> 0) (insertBy cmp x ys)"
  using srt tot tr
proof (induction ys)
  case Nil
  show ?case by simp
next
  case (Cons y ys)
  from Cons.prems(1) have tail: "sorted_wrt (\<lambda>a b. cmp a b \<le> 0) ys"
    and le_y: "\<And>c. c \<in> set ys \<Longrightarrow> cmp y c \<le> 0"
    by simp_all
  show ?case
  proof (cases "cmp x y \<le> 0")
    case True
    have "cmp x c \<le> 0" if "c \<in> set (y # ys)" for c
    proof (cases "c = y")
      case True
      with \<open>cmp x y \<le> 0\<close> show ?thesis by simp
    next
      case False
      with that have c: "c \<in> set ys" by simp
      show ?thesis
        by (rule Cons.prems(3) [of y c]) (simp_all add: c True le_y)
    qed
    with True Cons.prems(1) show ?thesis by simp
  next
    case False
    have yx: "cmp y x \<le> 0"
      using Cons.prems(2) [of y] False by simp
    have ih: "sorted_wrt (\<lambda>a b. cmp a b \<le> 0) (insertBy cmp x ys)"
    proof (rule Cons.IH [OF tail])
      show "cmp x b \<le> 0 \<or> cmp b x \<le> 0" if "b \<in> set ys" for b
        by (rule Cons.prems(2)) (use that in simp_all)
      show "cmp x c \<le> 0" if "b \<in> set ys" "c \<in> set ys" "cmp x b \<le> 0" "cmp b c \<le> 0" for b c
        by (rule Cons.prems(3) [of b c]) (use that in simp_all)
    qed
    have "cmp y c \<le> 0" if "c \<in> set (insertBy cmp x ys)" for c
      using that yx le_y by (auto simp: set_insertBy)
    with False ih show ?thesis by simp
  qed
qed

lemma sorted_sortBy:
  assumes tot: "\<And>a b. a \<in> set xs \<Longrightarrow> b \<in> set xs \<Longrightarrow> cmp a b \<le> 0 \<or> cmp b a \<le> 0"
    and tr: "\<And>a b c. a \<in> set xs \<Longrightarrow> b \<in> set xs \<Longrightarrow> c \<in> set xs \<Longrightarrow>
           cmp a b \<le> 0 \<Longrightarrow> cmp b c \<le> 0 \<Longrightarrow> cmp a c \<le> 0"
  shows "sorted_wrt (\<lambda>a b. cmp a b \<le> 0) (sortBy cmp xs)"
  using tot tr
proof (induction xs)
  case Nil
  show ?case by (simp add: sortBy_def)
next
  case (Cons x xs)
  have ih: "sorted_wrt (\<lambda>a b. cmp a b \<le> 0) (sortBy cmp xs)"
  proof (rule Cons.IH)
    show "cmp a b \<le> 0 \<or> cmp b a \<le> 0" if "a \<in> set xs" "b \<in> set xs" for a b
      by (rule Cons.prems(1)) (use that in simp_all)
    show "cmp a c \<le> 0"
      if "a \<in> set xs" "b \<in> set xs" "c \<in> set xs" "cmp a b \<le> 0" "cmp b c \<le> 0" for a b c
      by (rule Cons.prems(2) [of a b c]) (use that in simp_all)
  qed
  have "sorted_wrt (\<lambda>a b. cmp a b \<le> 0) (insertBy cmp x (sortBy cmp xs))"
  proof (rule sorted_insertBy [OF ih])
    show "cmp x b \<le> 0 \<or> cmp b x \<le> 0" if "b \<in> set (sortBy cmp xs)" for b
      by (rule Cons.prems(1)) (use that in \<open>simp_all add: set_sortBy\<close>)
    show "cmp x c \<le> 0"
      if "b \<in> set (sortBy cmp xs)" "c \<in> set (sortBy cmp xs)" "cmp x b \<le> 0" "cmp b c \<le> 0"
      for b c
      by (rule Cons.prems(2) [of x b c]) (use that in \<open>simp_all add: set_sortBy\<close>)
  qed
  then show ?case by (simp add: sortBy_def)
qed

lemma distinct_dedupe: "distinct (dedupe xs)"
  by (simp add: dedupe_def)

lemma distinct_listHtmlFiles: "distinct (listHtmlFiles h dir pat)"
  by (simp add: listHtmlFiles_def distinct_dedupe)

lemma main_settled:
  assumes "set (settleOrder r) = {0..<length (listHtmlFiles h (SRC_DIR h a) (pattern a))}"
  shows "main h a r =
     Some (if \<not> pathExists h (SRC_DIR h a) then Inl SourceMissing
           else if listHtmlFiles h (SRC_DIR h a) (pattern a) = [] then Inl NoHtmlFiles
           else if concurrency a < 1 then Inl Unhandled
           else Inr \<lparr>pagesJson = \<lparr>generatedAt = indexStamp r, source = SRC_DIR h a,
                        pages = pagesOf (sortExtracted h
                          (map (task h) (listHtmlFiles h (SRC_DIR h a) (pattern a))))\<rparr>,
                     llmTxt = generateLLMTextStream h (corpusStamp r)
                        (itemsForOutput (sortExtracted h
                          (map (task h) (listHtmlFiles h (SRC_DIR h a) (pattern a)))))
                        (SRC_DIR h a)\<rparr>)"
proof -
  have "executor h r (listHtmlFiles h (SRC_DIR h a) (pattern a)) =
      Some (map (task h) (listHtmlFiles h (SRC_DIR h a) (pattern a)))"
    unfolding executor_def using assms by (intro promiseAll_settled) simp
  then show ?thesis
    by (simp add: main_def Let_def)
qed

lemma example_files:
  "listHtmlFiles exampleHost (SRC_DIR exampleHost exampleArgv) (pattern exampleArgv) =
     [ascii ''/w/site/a.html'', ascii ''/w/site/b.html'']"
  by code_simp

lemma example_SRC_DIR: "SRC_DIR exampleHost exampleArgv = ascii ''/w/site''"
  by code_simp

lemma trim_Nil: "trim [] = []"
  by (simp add: trim_def)

lemma extract_blank:
  "readFile h f = Inr html \<Longrightarrow> trim html = [] \<Longrightarrow>
   extractTextFromHTML h f = \<lparr>r_filePath = f, r_text = [], r_error = None\<rparr>"
  by (simp add: extractTextFromHTML_def)


lemma extract_ok:
  assumes "readFile h f = Inr html" and "trim html \<noteq> []"
    and "load h html = Inr d0" and "removeNoise h d0 = Inr d"
    and "\<forall>sel \<in> set selectors. textOf h sel d = Inr (t sel)"
  shows "extractTextFromHTML h f =
     \<lparr>r_filePath = f,
      r_text = normalizeText
        (case find (\<lambda>sel. 50 < length (trim (t sel))) selectors of
           None \<Rightarrow> t (ascii ''body'') | Some sel \<Rightarrow> t sel),
      r_error = None\<rparr>"
proof -
  have "parseAndSelect h html =
      Inr (case find (\<lambda>sel. 50 < length (trim (t sel))) selectors of
             None \<Rightarrow> t (ascii ''body'') | Some sel \<Rightarrow> t sel)"
    by (simp add: parseAndSelect_def thenTry_def assms(3,4) selectText_find [OF assms(5)])
  with assms(1,2) show ?thesis
    by (auto simp: extractTextFromHTML_def trim_Nil)
qed

lemma task_path: "e_path (task h f) = f"
  by (simp add: task_def Let_def)

lemma task_text: "e_text (task h f) = r_text (extractTextFromHTML h f)"
  by (simp add: task_def Let_def)

lemma task_textLength: "e_textLength (task h f) = length (e_text (task h f))"
  by (simp add: task_def Let_def)

lemma task_rel: "e_rel (task h f) = relative (cwd h) (cwd h) f"
  by (simp add: task_def Let_def)

lemma task_error: "e_error (task h f) = orNull (r_error (extractTextFromHTML h f))"
  by (simp add: task_def Let_def)

lemma noError_no_error: "r_error (extractTextFromHTML h f) = None \<Longrightarrow> noError (task h f)"
  by (simp add: noError_def task_error orNull_def)

lemma noError_read_failed: "readFile h f = Inl m \<Longrightarrow> m \<noteq> [] \<Longrightarrow> \<not> noError (task h f)"
  by (simp add: noError_def task_def Let_def orNull_def extractTextFromHTML_def)

lemma filter_sortBy_mset: "mset (filter P (sortBy cmp xs)) = filter_mset P (mset xs)"
  by (simp add: mset_sortBy)

lemma items_paths: "map i_path (itemsForOutput es) = map e_path (filter noError es)"
  by (simp add: itemsForOutput_def successfulExtractions_def comp_def)

lemma filter_neq_distinct:
  "distinct xs \<Longrightarrow> f \<in> set xs \<Longrightarrow> mset (filter (\<lambda>g. g \<noteq> f) xs) = mset xs - {#f#}"
proof (induction xs)
  case Nil
  then show ?case by simp
next
  case (Cons x xs)
  show ?case
  proof (cases "x = f")
    case True
    with Cons.prems have "f \<notin> set xs" by simp
    then have "filter (\<lambda>g. g \<noteq> f) xs = xs"
      by (induction xs) auto
    with True show ?thesis by simp
  next
    case False
    with Cons.prems have "f \<in> set xs" "distinct xs" by auto
    with Cons.IH False show ?thesis by simp
  qed
qed

lemma items_from_tasks:
  "it \<in> set (itemsForOutput (sortExtracted h (map (task h) files))) \<Longrightarrow>
   i_path it \<in> set files \<and>
   i_text it = r_text (extractTextFromHTML h (i_path it)) \<and>
   i_textLength it = length (i_text it) \<and>
   i_size it = (case stat h (i_path it) of None \<Rightarrow> 0 | Some n \<Rightarrow> n)"
  by (auto simp: itemsForOutput_def successfulExtractions_def sortExtracted_def set_sortBy
        task_def Let_def)

lemma task_error_read_failed:
  "readFile h f = Inl m \<Longrightarrow> m \<noteq> [] \<Longrightarrow> e_error (task h f) = Some m"
  by (simp add: task_def Let_def orNull_def extractTextFromHTML_def)









lemma collapseWs_no_space: "\<forall>c \<in> set t. \<not> isSpace c \<Longrightarrow> collapseWs t = t"
  by (induction t) auto















lemma join_Cons: "join sep (x # xs) = x @ (if xs = [] then [] else sep @ join sep xs)"
  by (cases xs) simp_all

lemma splitSlash_no_slash: "p \<in> set (splitSlash s) \<Longrightarrow> 0x2F \<notin> set p"
  by (induction s arbitrary: p) (auto split: if_splits list.splits)

lemma normalizeParts_good:
  assumes "\<forall>p \<in> set acc. p \<noteq> [] \<and> 0x2F \<notin> set p \<and> p \<noteq> dotdot"
    and "\<forall>p \<in> set ps. 0x2F \<notin> set p"
  shows "\<forall>p \<in> set (normalizeParts acc ps). p \<noteq> [] \<and> 0x2F \<notin> set p \<and> p \<noteq> dotdot"
  using assms
proof (induction acc ps rule: normalizeParts.induct)
  case (1 acc)
  then show ?case by simp
next
  case (2 acc p ps)
  from 2(5) have ps: "\<forall>p \<in> set ps. 0x2F \<notin> set p" and p: "0x2F \<notin> set p"
    by simp_all
  have b: "\<forall>q \<in> set (butlast acc). q \<noteq> [] \<and> 0x2F \<notin> set q \<and> q \<noteq> dotdot"
    using 2(4) by (meson in_set_butlastD)
  show ?case
  proof (cases "p = [] \<or> p = [0x2E]")
    case True
    from 2(1) [OF True 2(4) ps] True show ?thesis by simp
  next
    case False
    show ?thesis
    proof (cases "p = dotdot")
      case True
      from 2(2) [OF False True b ps] False True show ?thesis by simp
    next
      case nd: False
      have "\<forall>q \<in> set (acc @ [p]). q \<noteq> [] \<and> 0x2F \<notin> set q \<and> q \<noteq> dotdot"
        using 2(4) False nd p by simp
      from 2(3) [OF False nd this ps] False nd show ?thesis by simp
    qed
  qed
qed

lemma resolveParts_good:
  assumes "p \<in> set (resolveParts wd s)"
  shows "p \<noteq> [] \<and> 0x2F \<notin> set p \<and> p \<noteq> dotdot"
proof -
  have g: "\<forall>p \<in> set (normalizeParts [] ps). p \<noteq> [] \<and> 0x2F \<notin> set p \<and> p \<noteq> dotdot"
    if "\<forall>p \<in> set ps. 0x2F \<notin> set p" for ps
    by (rule normalizeParts_good) (use that in simp_all)
  have s1: "\<forall>p \<in> set (splitSlash s). 0x2F \<notin> set p"
    using splitSlash_no_slash by blast
  have s2: "\<forall>p \<in> set (splitSlash wd @ splitSlash s). 0x2F \<notin> set p"
    using splitSlash_no_slash by auto
  show ?thesis
  proof (cases "s \<noteq> [] \<and> hd s = 0x2F")
    case True
    with assms have "p \<in> set (normalizeParts [] (splitSlash s))"
      by (simp add: resolveParts_def)
    with g [OF s1] show ?thesis by blast
  next
    case False
    with assms have "p \<in> set (normalizeParts [] (splitSlash wd @ splitSlash s))"
      by (simp only: resolveParts_def if_False)
    with g [OF s2] show ?thesis by blast
  qed
qed

lemma split_at_slash:
  assumes "0x2F \<notin> set x" and "a = [] \<or> hd a = 0x2F"
  shows "takeWhile (\<lambda>c. c \<noteq> 0x2F) (x @ a) = x \<and> dropWhile (\<lambda>c. c \<noteq> 0x2F) (x @ a) = a"
proof -
  have t: "takeWhile (\<lambda>c. c \<noteq> 0x2F) a = []" and d: "dropWhile (\<lambda>c. c \<noteq> 0x2F) a = a"
    using assms(2) by (cases a; simp)+
  from assms(1) show ?thesis
    by (induction x) (simp_all add: t d)
qed

lemma dropCommon_split:
  "dropCommon xs ys = (up, down) \<Longrightarrow> \<exists>cs. xs = cs @ up \<and> ys = cs @ down"
proof (induction xs arbitrary: ys)
  case Nil
  then show ?case by (intro exI [of _ "[]"]) simp
next
  case (Cons x xs)
  show ?case
  proof (cases ys)
    case Nil
    with Cons.prems show ?thesis by (intro exI [of _ "[]"]) simp
  next
    case (Cons y ys')
    show ?thesis
    proof (cases "x = y")
      case True
      with Cons.prems Cons have "dropCommon xs ys' = (up, down)" by simp
      from Cons.IH [OF this] obtain cs where "xs = cs @ up" "ys' = cs @ down" by blast
      with True Cons show ?thesis by (intro exI [of _ "x # cs"]) simp
    next
      case False
      with Cons.prems Cons show ?thesis by (intro exI [of _ "[]"]) simp
    qed
  qed
qed

lemma dropCommon_prefix: "dropCommon xs (xs @ r) = ([], r)"
proof (induction xs)
  case Nil
  show ?case by (cases r) simp_all
next
  case (Cons x xs)
  then show ?case by simp
qed

lemma join_slash_inj:
  assumes "\<forall>p \<in> set xs. p \<noteq> [] \<and> 0x2F \<notin> set p"
    and "\<forall>p \<in> set ys. p \<noteq> [] \<and> 0x2F \<notin> set p"
    and "join [0x2F] xs = join [0x2F] ys"
  shows "xs = ys"
  using assms
proof (induction xs arbitrary: ys)
  case Nil
  show ?case
  proof (cases ys)
    case Nil
    then show ?thesis by simp
  next
    case (Cons y ys')
    with Nil.prems(2) have "y \<noteq> []" by simp
    with Nil.prems(3) Cons show ?thesis by (simp add: join_Cons)
  qed
next
  case (Cons x xs)
  from Cons.prems(1) have x: "x \<noteq> []" "0x2F \<notin> set x" by simp_all
  show ?case
  proof (cases ys)
    case Nil
    with Cons.prems(3) x show ?thesis by (simp add: join_Cons)
  next
    case ys: (Cons y ys')
    from Cons.prems(2) ys have y: "y \<noteq> []" "0x2F \<notin> set y" by simp_all
    define a where "a = (if xs = [] then [] else [0x2F] @ join [0x2F] xs)"
    define b where "b = (if ys' = [] then [] else [0x2F] @ join [0x2F] ys')"
    have eq: "x @ a = y @ b"
      using Cons.prems(3) ys by (simp add: join_Cons a_def b_def)
    have ha: "a = [] \<or> hd a = 0x2F" and hb: "b = [] \<or> hd b = 0x2F"
      by (simp_all add: a_def b_def)
    note sx = split_at_slash [OF x(2) ha] and sy = split_at_slash [OF y(2) hb]
    have "x = takeWhile (\<lambda>c. c \<noteq> 0x2F) (x @ a)"
      by (simp only: sx)
    also have "\<dots> = takeWhile (\<lambda>c. c \<noteq> 0x2F) (y @ b)"
      by (simp only: eq)
    also have "\<dots> = y"
      by (simp only: sy)
    finally have xy: "x = y" .
    have "a = dropWhile (\<lambda>c. c \<noteq> 0x2F) (x @ a)"
      by (simp only: sx)
    also have "\<dots> = dropWhile (\<lambda>c. c \<noteq> 0x2F) (y @ b)"
      by (simp only: eq)
    also have "\<dots> = b"
      by (simp only: sy)
    finally have ab: "a = b" .
    have "xs = ys'"
    proof (cases "xs = []")
      case True
      with ab have "b = []" by (simp add: a_def)
      then have "ys' = []" by (simp add: b_def split: if_splits)
      with True show ?thesis by simp
    next
      case False
      then have "a \<noteq> []" by (simp add: a_def)
      with ab have "b \<noteq> []" by simp
      then have ne: "ys' \<noteq> []" by (auto simp: b_def)
      with ab False have "join [0x2F] xs = join [0x2F] ys'"
        by (simp add: a_def b_def)
      moreover have "\<forall>p \<in> set xs. p \<noteq> [] \<and> 0x2F \<notin> set p"
        using Cons.prems(1) by simp
      moreover have "\<forall>p \<in> set ys'. p \<noteq> [] \<and> 0x2F \<notin> set p"
        using Cons.prems(2) ys by simp
      ultimately show ?thesis by (intro Cons.IH)
    qed
    with xy ys show ?thesis by simp
  qed
qed

lemma listHtmlFiles_set:
  "listHtmlFiles h dir pat = sorted_list_of_set (set (map (resolve (cwd h)) (glob h dir pat)))"
proof -
  have "sorted (listHtmlFiles h dir pat)" "distinct (listHtmlFiles h dir pat)"
    by (simp_all add: listHtmlFiles_def distinct_dedupe)
  moreover have "set (listHtmlFiles h dir pat) = set (map (resolve (cwd h)) (glob h dir pat))"
    by (simp add: listHtmlFiles_def dedupe_def)
  ultimately show ?thesis
    by (metis sorted_list_of_set.idem_if_sorted_distinct)
qed

lemma removeHidden_glob: "removeHidden (h\<lparr>glob := g\<rparr>) els d = removeHidden h els d"
  by (induction els arbitrary: d) (simp_all add: hiddenByStyle_def split: sum.splits)

lemma removeNoise_glob: "removeNoise (h\<lparr>glob := g\<rparr>) d = removeNoise h d"
  by (simp add: removeNoise_def removeHidden_glob)

lemma parseAndSelect_glob: "parseAndSelect (h\<lparr>glob := g\<rparr>) html = parseAndSelect h html"
  by (simp add: parseAndSelect_def removeNoise_glob)

lemma extract_glob: "extractTextFromHTML (h\<lparr>glob := g\<rparr>) f = extractTextFromHTML h f"
  by (simp add: extractTextFromHTML_def parseAndSelect_glob cong: sum.case_cong if_cong)

lemma task_glob: "task (h\<lparr>glob := g\<rparr>) f = task h f"
  by (simp add: task_def extract_glob)

lemma SRC_DIR_glob: "SRC_DIR (h\<lparr>glob := g\<rparr>) a = SRC_DIR h a"
  by (simp add: SRC_DIR_def)

lemma sortExtracted_glob: "sortExtracted (h\<lparr>glob := g\<rparr>) es = sortExtracted h es"
  by (simp add: sortExtracted_def)

lemma makeTocSection_glob: "makeTocSection (h\<lparr>glob := g\<rparr>) items srcDir = makeTocSection h items srcDir"
proof -
  have "tocBodyRow (h\<lparr>glob := g\<rparr>) = tocBodyRow h"
    by (intro ext) (simp add: tocBodyRow_def tocPath_def)
  then show ?thesis
    by (simp add: makeTocSection_def tocLines_def tocSummary_def maxPathLength_def tocPath_def
        Let_def)
qed

lemma generateLLMTextStream_glob:
  "generateLLMTextStream (h\<lparr>glob := g\<rparr>) now items srcDir = generateLLMTextStream h now items srcDir"
proof -
  have "section_writes (h\<lparr>glob := g\<rparr>) = section_writes h"
    by (rule ext) (simp add: section_writes_def sectionPath_def)
  then show ?thesis
    by (simp add: generateLLMTextStream_def makeTocSection_glob)
qed

lemma nth_concat_pairs:
  "i < length xs \<Longrightarrow>
   concat (map (\<lambda>x. [A x, B x]) xs) ! (2 * i) = A (xs ! i) \<and>
   concat (map (\<lambda>x. [A x, B x]) xs) ! Suc (2 * i) = B (xs ! i)"
proof (induction xs arbitrary: i)
  case Nil
  then show ?case by simp
next
  case (Cons x xs)
  show ?case
  proof (cases i)
    case 0
    then show ?thesis by simp
  next
    case (Suc j)
    with Cons.prems have "j < length xs" by simp
    from Cons.IH [OF this] Suc show ?thesis by simp
  qed
qed

section \<open>Properties\<close>

subsection \<open>The table of contents\<close>

text \<open>
  C8, the claim as written: with no successful entry the formatter renders the literal
  \<open>no files were processed\<close>. What \<open>makeTocSection\<close> returns there is another string,
  \<open>No files were processed.\<close> with a capital and a full stop.
\<close>

theorem toc_sentinel_counterexample:
  "makeTocSection exampleHost [] (ascii ''/w/site'') \<noteq> ascii ''no files were processed''"
  by code_simp

text \<open>
  C8, amended: for an input with no entry \<open>makeTocSection\<close> returns exactly the line
  \<open>No files were processed.\<close> and no table; for a non-empty input it returns the table, whose
  three widths are the maximum of the header label's length and of the lengths of all values
  of the column, and every cell of the header row and of the body rows is padded to exactly
  the width of its column.
\<close>

theorem toc_sentinel_and_column_widths:
  "makeTocSection h [] srcDir = ascii ''No files were processed.'' \<and>
   (items \<noteq> [] \<longrightarrow>
      makeTocSection h items srcDir = join [0x0A] (tocLines h items srcDir) @ tocSummary h items) \<and>
   tocLines h items srcDir =
     [makeDivider (maxPathLength h srcDir items) (maxSizeLength items) (maxCharsLength items)
        0x2554 0x2564 0x2564 0x2557,
      tocRow (maxPathLength h srcDir items) (maxSizeLength items) (maxCharsLength items)
        headers_filePath headers_size headers_chars,
      makeDivider (maxPathLength h srcDir items) (maxSizeLength items) (maxCharsLength items)
        0x255F 0x253C 0x253C 0x2562,
      join [0x0A] (map (tocBodyRow h srcDir (maxPathLength h srcDir items) (maxSizeLength items)
        (maxCharsLength items)) items),
      makeDivider (maxPathLength h srcDir items) (maxSizeLength items) (maxCharsLength items)
        0x255A 0x2567 0x2567 0x255D] \<and>
   maxPathLength h srcDir items =
     Max (insert (length headers_filePath) ((\<lambda>it. length (tocPath h srcDir it)) ` set items)) \<and>
   maxSizeLength items =
     Max (insert (length headers_size) ((\<lambda>it. length (toString (i_size it))) ` set items)) \<and>
   maxCharsLength items =
     Max (insert (length headers_chars) ((\<lambda>it. length (toString (i_textLength it))) ` set items)) \<and>
   length (padEnd (maxPathLength h srcDir items) headers_filePath) = maxPathLength h srcDir items \<and>
   length (padStart (maxSizeLength items) headers_size) = maxSizeLength items \<and>
   length (padStart (maxCharsLength items) headers_chars) = maxCharsLength items \<and>
   (\<forall>it \<in> set items.
      length (padEnd (maxPathLength h srcDir items) (tocPath h srcDir it)) =
        maxPathLength h srcDir items \<and>
      length (padStart (maxSizeLength items) (toString (i_size it))) = maxSizeLength items \<and>
      length (padStart (maxCharsLength items) (toString (i_textLength it))) =
        maxCharsLength items)"
proof -
  have sentinel: "makeTocSection h [] srcDir = ascii ''No files were processed.''"
    by (simp add: makeTocSection_def)
  have table: "items \<noteq> [] \<longrightarrow>
      makeTocSection h items srcDir = join [0x0A] (tocLines h items srcDir) @ tocSummary h items"
    by (simp add: makeTocSection_def)
  have lines: "tocLines h items srcDir =
     [makeDivider (maxPathLength h srcDir items) (maxSizeLength items) (maxCharsLength items)
        0x2554 0x2564 0x2564 0x2557,
      tocRow (maxPathLength h srcDir items) (maxSizeLength items) (maxCharsLength items)
        headers_filePath headers_size headers_chars,
      makeDivider (maxPathLength h srcDir items) (maxSizeLength items) (maxCharsLength items)
        0x255F 0x253C 0x253C 0x2562,
      join [0x0A] (map (tocBodyRow h srcDir (maxPathLength h srcDir items) (maxSizeLength items)
        (maxCharsLength items)) items),
      makeDivider (maxPathLength h srcDir items) (maxSizeLength items) (maxCharsLength items)
        0x255A 0x2567 0x2567 0x255D]"
    by (simp add: tocLines_def Let_def)
  have wp: "maxPathLength h srcDir items =
     Max (insert (length headers_filePath) ((\<lambda>it. length (tocPath h srcDir it)) ` set items))"
    by (simp add: maxPathLength_def fold_max_Max)
  have ws: "maxSizeLength items =
     Max (insert (length headers_size) ((\<lambda>it. length (toString (i_size it))) ` set items))"
    by (simp add: maxSizeLength_def fold_max_Max)
  have wc: "maxCharsLength items =
     Max (insert (length headers_chars) ((\<lambda>it. length (toString (i_textLength it))) ` set items))"
    by (simp add: maxCharsLength_def fold_max_Max)
  have hp: "length (padEnd (maxPathLength h srcDir items) headers_filePath) =
      maxPathLength h srcDir items"
    unfolding maxPathLength_def by (rule length_padEnd) (rule fold_max_ge_init)
  have hs: "length (padStart (maxSizeLength items) headers_size) = maxSizeLength items"
    unfolding maxSizeLength_def by (rule length_padStart) (rule fold_max_ge_init)
  have hc: "length (padStart (maxCharsLength items) headers_chars) = maxCharsLength items"
    unfolding maxCharsLength_def by (rule length_padStart) (rule fold_max_ge_init)
  have cells: "\<forall>it \<in> set items.
      length (padEnd (maxPathLength h srcDir items) (tocPath h srcDir it)) =
        maxPathLength h srcDir items \<and>
      length (padStart (maxSizeLength items) (toString (i_size it))) = maxSizeLength items \<and>
      length (padStart (maxCharsLength items) (toString (i_textLength it))) =
        maxCharsLength items"
  proof
    fix it assume it: "it \<in> set items"
    have "length (tocPath h srcDir it) \<le> maxPathLength h srcDir items"
      unfolding maxPathLength_def using it by (intro fold_max_ge_elem) simp
    moreover have "length (toString (i_size it)) \<le> maxSizeLength items"
      unfolding maxSizeLength_def using it by (intro fold_max_ge_elem) simp
    moreover have "length (toString (i_textLength it)) \<le> maxCharsLength items"
      unfolding maxCharsLength_def using it by (intro fold_max_ge_elem) simp
    ultimately show "length (padEnd (maxPathLength h srcDir items) (tocPath h srcDir it)) =
        maxPathLength h srcDir items \<and>
      length (padStart (maxSizeLength items) (toString (i_size it))) = maxSizeLength items \<and>
      length (padStart (maxCharsLength items) (toString (i_textLength it))) =
        maxCharsLength items"
      by (simp add: length_padEnd length_padStart)
  qed
  show ?thesis by (intro conjI sentinel table lines wp ws wc hp hs hc cells)
qed

theorem toc_sentinel_and_column_widths_witness:
  "[exampleItem] \<noteq> [] \<and> exampleItem \<in> set [exampleItem] \<and>
   makeTocSection exampleHost [exampleItem] (ascii ''/w/site'') =
     join [0x0A] (tocLines exampleHost [exampleItem] (ascii ''/w/site'')) @
     tocSummary exampleHost [exampleItem] \<and>
   maxPathLength exampleHost (ascii ''/w/site'') [exampleItem] = 9 \<and>
   length (padEnd (maxPathLength exampleHost (ascii ''/w/site'') [exampleItem])
     (tocPath exampleHost (ascii ''/w/site'') exampleItem)) = 9 \<and>
   length (padStart (maxSizeLength [exampleItem]) (toString (i_size exampleItem))) =
     maxSizeLength [exampleItem] \<and>
   length (padStart (maxCharsLength [exampleItem]) (toString (i_textLength exampleItem))) =
     maxCharsLength [exampleItem]"
proof -
  have ne: "[exampleItem] \<noteq> []" and mem: "exampleItem \<in> set [exampleItem]"
    by simp_all
  have v: "maxPathLength exampleHost (ascii ''/w/site'') [exampleItem] = 9"
    by code_simp
  from toc_sentinel_and_column_widths [of exampleHost "ascii ''/w/site''" "[exampleItem]"] ne mem v
  show ?thesis by metis
qed


subsection \<open>The index\<close>

text \<open>
  C1: for N discovered files the executor yields N results and the index holds N records,
  the failed files with their reason. On the example host (two files, the read of
  \<open>b.html\<close> fails) the executor yields two results, but \<open>pages.json\<close> holds one record,
  that of \<open>a.html\<close>: \<open>pagesJson\<close> is mapped from \<open>successfulExtractions\<close>, so the \<open>error\<close>
  property it copies into each record is never set.
\<close>

theorem index_omits_failed_file:
  "map_option (map (\<lambda>e. (e_path e, e_error e)))
     (executor exampleHost exampleRun
        (listHtmlFiles exampleHost (SRC_DIR exampleHost exampleArgv) (pattern exampleArgv))) =
     Some [(ascii ''/w/site/a.html'', None), (ascii ''/w/site/b.html'', Some (ascii ''EACCES''))] \<and>
   map_option (map_sum id (\<lambda>out. map (\<lambda>p. (p_path p, p_error p)) (pages (pagesJson out))))
     (main exampleHost exampleArgv exampleRun) = Some (Inr [(ascii ''site/a.html'', None)])"
proof -
  have order: "set (settleOrder exampleRun) =
      {0..<length (listHtmlFiles exampleHost (SRC_DIR exampleHost exampleArgv) (pattern exampleArgv))}"
    unfolding example_files by (auto simp: exampleRun_def)
  have ex: "executor exampleHost exampleRun [ascii ''/w/site/a.html'', ascii ''/w/site/b.html''] =
      Some (map (task exampleHost) [ascii ''/w/site/a.html'', ascii ''/w/site/b.html''])"
    unfolding executor_def using order [unfolded example_files] by (intro promiseAll_settled) simp
  have ra: "readFile exampleHost (ascii ''/w/site/a.html'') = Inr exampleText"
    by code_simp
  have rb: "readFile exampleHost (ascii ''/w/site/b.html'') = Inl (ascii ''EACCES'')"
    by code_simp
  have m: "ascii ''EACCES'' \<noteq> []"
    by (simp add: ascii_def)
  have ea: "e_error (task exampleHost (ascii ''/w/site/a.html'')) = None"
    by code_simp
  have eb: "e_error (task exampleHost (ascii ''/w/site/b.html'')) = Some (ascii ''EACCES'')"
    by (rule task_error_read_failed [OF rb m])
  have rela: "e_rel (task exampleHost (ascii ''/w/site/a.html'')) = ascii ''site/a.html''"
    unfolding task_rel by code_simp
  have first: "map_option (map (\<lambda>e. (e_path e, e_error e)))
     (executor exampleHost exampleRun
        (listHtmlFiles exampleHost (SRC_DIR exampleHost exampleArgv) (pattern exampleArgv))) =
     Some [(ascii ''/w/site/a.html'', None), (ascii ''/w/site/b.html'', Some (ascii ''EACCES''))]"
    unfolding example_files ex by (simp add: task_path ea eb)
  have ok: "pathExists exampleHost (SRC_DIR exampleHost exampleArgv)" "\<not> concurrency exampleArgv < 1"
    by (simp_all add: exampleHost_def exampleArgv_def)
  have pg: "map (\<lambda>p. (p_path p, p_error p))
      (pagesOf (sortExtracted exampleHost
         (map (task exampleHost) [ascii ''/w/site/a.html'', ascii ''/w/site/b.html'']))) =
      [(ascii ''site/a.html'', None)]"
    by (simp add: pagesOf_def successfulExtractions_def sortExtracted_def sortBy_def noError_def
        ea eb m rela comp_def)
  have second: "map_option (map_sum id (\<lambda>out. map (\<lambda>p. (p_path p, p_error p)) (pages (pagesJson out))))
     (main exampleHost exampleArgv exampleRun) = Some (Inr [(ascii ''site/a.html'', None)])"
    unfolding main_settled [OF order] example_files using ok pg by simp
  from first second show ?thesis by (rule conjI)
qed

subsection \<open>A file whose read fails\<close>

text \<open>
  C2, the claim as written: a read failure gives a result with the failure reason, the empty
  text and size 0. On the example host the read of \<open>b.html\<close> fails while its \<open>stat\<close>
  succeeds, and the result carries the size \<open>stat\<close> reports.
\<close>

theorem read_failure_size_counterexample:
  "\<not> (readFile exampleHost (ascii ''/w/site/b.html'') = Inl (ascii ''EACCES'') \<longrightarrow>
        e_error (task exampleHost (ascii ''/w/site/b.html'')) = Some (ascii ''EACCES'') \<and>
        e_text (task exampleHost (ascii ''/w/site/b.html'')) = [] \<and>
        e_size (task exampleHost (ascii ''/w/site/b.html'')) = 0)"
  by code_simp

text \<open>
  C2, amended: when the read of a file fails (with a message that is not empty, as those of
  the file system are) the result of its task has that message as failure reason, the empty
  text, text length 0, the hash of the empty text, and as size what \<open>stat\<close> reports for the
  file, 0 only when \<open>stat\<close> fails as well.
\<close>

theorem read_failure_result:
  "readFile h f = Inl m \<Longrightarrow> m \<noteq> [] \<Longrightarrow>
   e_error (task h f) = Some m \<and> e_text (task h f) = [] \<and> e_textLength (task h f) = 0 \<and>
   e_hash (task h f) = digestHex h [] \<and>
   e_size (task h f) = (case stat h f of None \<Rightarrow> 0 | Some n \<Rightarrow> n)"
  by (simp add: task_def extractTextFromHTML_def orNull_def)

theorem read_failure_result_witness:
  "readFile exampleHost (ascii ''/w/site/b.html'') = Inl (ascii ''EACCES'') \<and>
   ascii ''EACCES'' \<noteq> [] \<and>
   e_error (task exampleHost (ascii ''/w/site/b.html'')) = Some (ascii ''EACCES'') \<and>
   e_text (task exampleHost (ascii ''/w/site/b.html'')) = [] \<and>
   e_textLength (task exampleHost (ascii ''/w/site/b.html'')) = 0 \<and>
   e_size (task exampleHost (ascii ''/w/site/b.html'')) = 120"
proof -
  have r: "readFile exampleHost (ascii ''/w/site/b.html'') = Inl (ascii ''EACCES'')"
    by code_simp
  have m: "ascii ''EACCES'' \<noteq> []"
    by (simp add: ascii_def)
  have s: "stat exampleHost (ascii ''/w/site/b.html'') = Some 120"
    by (simp add: exampleHost_def)
  from read_failure_result [OF r m] r m s show ?thesis
    by simp
qed

subsection \<open>The choice of the main content\<close>




subsection \<open>Two runs\<close>

text \<open>
  C9: two runs with the same command line on hosts that differ at most in the order (and
  repetitions) in which \<open>glob\<close> lists the same set of files, whatever the order in which
  their tasks settle (each task settling once) and whatever the clock: both finish, either
  with the same fatal condition or with the same source, the same index records in the
  same order and the same writes to the corpus but the first, which is the \<open>Generated:\<close>
  line carrying the time stamp. (The bytes of \<open>pages.json\<close> are \<open>JSON.stringify\<close> of the
  index object.)
\<close>

theorem artifacts_reproducible:
  assumes same: "set (map (resolve (cwd h)) (glob h (SRC_DIR h a) (pattern a))) =
      set (map (resolve (cwd h)) (g (SRC_DIR h a) (pattern a)))"
    and o1: "mset (settleOrder r1) =
      mset [0..<length (listHtmlFiles h (SRC_DIR h a) (pattern a))]"
    and o2: "mset (settleOrder r2) =
      mset [0..<length (listHtmlFiles (h\<lparr>glob := g\<rparr>) (SRC_DIR h a) (pattern a))]"
  shows "\<exists>x1 x2. main h a r1 = Some x1 \<and> main (h\<lparr>glob := g\<rparr>) a r2 = Some x2 \<and>
     map_sum id (\<lambda>out. (source (pagesJson out), pages (pagesJson out), tl (llmTxt out))) x1 =
     map_sum id (\<lambda>out. (source (pagesJson out), pages (pagesJson out), tl (llmTxt out))) x2 \<and>
     (\<forall>out. x1 = Inr out \<longrightarrow> generatedAt (pagesJson out) = indexStamp r1 \<and>
        hd (llmTxt out) = ascii ''Generated: '' @ corpusStamp r1 @ [0x0A]) \<and>
     (\<forall>out. x2 = Inr out \<longrightarrow> generatedAt (pagesJson out) = indexStamp r2 \<and>
        hd (llmTxt out) = ascii ''Generated: '' @ corpusStamp r2 @ [0x0A])"
proof -
  have files: "listHtmlFiles (h\<lparr>glob := g\<rparr>) (SRC_DIR h a) (pattern a) =
      listHtmlFiles h (SRC_DIR h a) (pattern a)"
    unfolding listHtmlFiles_set using same by simp
  have s1: "set (settleOrder r1) = {0..<length (listHtmlFiles h (SRC_DIR h a) (pattern a))}"
    by (rule mset_upt_set) (rule o1)
  have s2: "set (settleOrder r2) =
      {0..<length (listHtmlFiles (h\<lparr>glob := g\<rparr>) (SRC_DIR (h\<lparr>glob := g\<rparr>) a) (pattern a))}"
    unfolding SRC_DIR_glob by (rule mset_upt_set) (rule o2)
  note m1 = main_settled [OF s1]
  note m2 = main_settled [OF s2, unfolded SRC_DIR_glob files task_glob sortExtracted_glob
      generateLLMTextStream_glob]
  show ?thesis
    unfolding m1 m2 by (simp add: generateLLMTextStream_def)
qed

theorem artifacts_reproducible_witness:
  "set (map (resolve (cwd exampleHost)) (glob exampleHost (SRC_DIR exampleHost exampleArgv)
       (pattern exampleArgv))) =
     set (map (resolve (cwd exampleHost)) (relistedGlob (SRC_DIR exampleHost exampleArgv)
       (pattern exampleArgv))) \<and>
   glob exampleHost (SRC_DIR exampleHost exampleArgv) (pattern exampleArgv) \<noteq>
     relistedGlob (SRC_DIR exampleHost exampleArgv) (pattern exampleArgv) \<and>
   mset (settleOrder exampleRun) =
     mset [0..<length (listHtmlFiles exampleHost (SRC_DIR exampleHost exampleArgv)
                         (pattern exampleArgv))] \<and>
   mset (settleOrder exampleRerun) =
     mset [0..<length (listHtmlFiles (exampleHost\<lparr>glob := relistedGlob\<rparr>)
                         (SRC_DIR exampleHost exampleArgv) (pattern exampleArgv))] \<and>
   settleOrder exampleRun \<noteq> settleOrder exampleRerun \<and>
   (\<exists>x1 x2. main exampleHost exampleArgv exampleRun = Some x1 \<and>
      main (exampleHost\<lparr>glob := relistedGlob\<rparr>) exampleArgv exampleRerun = Some x2 \<and>
      map_sum id (\<lambda>out. (source (pagesJson out), pages (pagesJson out), tl (llmTxt out))) x1 =
      map_sum id (\<lambda>out. (source (pagesJson out), pages (pagesJson out), tl (llmTxt out))) x2)"
proof -
  have same: "set (map (resolve (cwd exampleHost)) (glob exampleHost (SRC_DIR exampleHost exampleArgv)
       (pattern exampleArgv))) =
     set (map (resolve (cwd exampleHost)) (relistedGlob (SRC_DIR exampleHost exampleArgv)
       (pattern exampleArgv)))"
    by (auto simp: exampleHost_def relistedGlob_def)
  have other: "glob exampleHost (SRC_DIR exampleHost exampleArgv) (pattern exampleArgv) \<noteq>
     relistedGlob (SRC_DIR exampleHost exampleArgv) (pattern exampleArgv)"
    by (simp add: exampleHost_def relistedGlob_def)
  have files: "listHtmlFiles (exampleHost\<lparr>glob := relistedGlob\<rparr>)
      (SRC_DIR exampleHost exampleArgv) (pattern exampleArgv) =
      [ascii ''/w/site/a.html'', ascii ''/w/site/b.html'']"
    by code_simp
  have o1: "mset (settleOrder exampleRun) =
     mset [0..<length (listHtmlFiles exampleHost (SRC_DIR exampleHost exampleArgv)
                         (pattern exampleArgv))]"
    unfolding example_files by (simp add: exampleRun_def upt_rec)
  have o2: "mset (settleOrder exampleRerun) =
     mset [0..<length (listHtmlFiles (exampleHost\<lparr>glob := relistedGlob\<rparr>)
                         (SRC_DIR exampleHost exampleArgv) (pattern exampleArgv))]"
    unfolding files by (simp add: exampleRerun_def upt_rec)
  have d: "settleOrder exampleRun \<noteq> settleOrder exampleRerun"
    by (simp add: exampleRun_def exampleRerun_def)
  from artifacts_reproducible [OF same o1 o2] same other o1 o2 d show ?thesis
    by blast
qed

subsection \<open>One file that cannot be read\<close>

text \<open>
  C3: in a run over the discovered files, one of which cannot be read (its error carrying a
  message, as those of the file system do) while each of the others is read and, unless it
  is blank, parsed without a throw, \<open>main\<close> does not end in \<open>fatal\<close>. The items it writes are
  the other files, each once, and not the failed one; the text of an item is the normalised
  text of the first selector that is long enough (of \<open>body\<close> when there is none, empty for a
  blank file). The corpus is the three header lines, the table of contents with one row
  per item, showing its path relative to the source directory, its size and its length,
  and for each item in order a delimiter with its path relative to the working directory,
  followed by its text or, when the text is empty, the line \<open>[No extractable text]\<close>.
\<close>

theorem read_failure_isolated:
  fixes h :: "('dom, 'el) host" and content :: "jsstring \<Rightarrow> jsstring"
    and doc0 doc :: "jsstring \<Rightarrow> 'dom" and t :: "jsstring \<Rightarrow> jsstring \<Rightarrow> jsstring"
  assumes ok: "pathExists h (SRC_DIR h a)" "1 \<le> concurrency a"
    and files: "files = listHtmlFiles h (SRC_DIR h a) (pattern a)"
    and order: "mset (settleOrder r) = mset [0..<length files]"
    and f: "f \<in> set files" "readFile h f = Inl m" "m \<noteq> []"
    and others: "\<forall>g \<in> set files. g \<noteq> f \<longrightarrow>
        readFile h g = Inr (content g) \<and>
        (trim (content g) \<noteq> [] \<longrightarrow>
           load h (content g) = Inr (doc0 g) \<and> removeNoise h (doc0 g) = Inr (doc g) \<and>
           (\<forall>sel \<in> set selectors. textOf h sel (doc g) = Inr (t g sel)))"
  shows "\<exists>out items. main h a r = Some (Inr out) \<and>
     mset (map i_path items) = mset files - {#f#} \<and>
     length items = length files - 1 \<and>
     f \<notin> set (map i_path items) \<and>
     (\<forall>it \<in> set items.
        i_text it =
          (if trim (content (i_path it)) = [] then []
           else normalizeText
             (case find (\<lambda>sel. 50 < length (trim (t (i_path it) sel))) selectors of
                None \<Rightarrow> t (i_path it) (ascii ''body'')
              | Some sel \<Rightarrow> t (i_path it) sel)) \<and>
        i_textLength it = length (i_text it) \<and>
        i_size it = (case stat h (i_path it) of None \<Rightarrow> 0 | Some n \<Rightarrow> n)) \<and>
     llmTxt out =
       [ascii ''Generated: '' @ corpusStamp r @ [0x0A],
        ascii ''Source directory: '' @ SRC_DIR h a @ [0x0A],
        ascii ''Files processed: '' @ toString (length files - 1) @ [0x0A, 0x0A],
        (if items = [] then ascii ''No files were processed.''
         else
           join [0x0A]
             [makeDivider (maxPathLength h (SRC_DIR h a) items) (maxSizeLength items)
                (maxCharsLength items) 0x2554 0x2564 0x2564 0x2557,
              tocRow (maxPathLength h (SRC_DIR h a) items) (maxSizeLength items)
                (maxCharsLength items) headers_filePath headers_size headers_chars,
              makeDivider (maxPathLength h (SRC_DIR h a) items) (maxSizeLength items)
                (maxCharsLength items) 0x255F 0x253C 0x253C 0x2562,
              join [0x0A]
                (map (\<lambda>it.
                    [0x2551, 0x20] @
                    padEnd (maxPathLength h (SRC_DIR h a) items)
                      (relative (cwd h) (SRC_DIR h a) (i_path it)) @
                    [0x20, 0x2502, 0x20] @
                    padStart (maxSizeLength items) (toString (i_size it)) @
                    [0x20, 0x2502, 0x20] @
                    padStart (maxCharsLength items) (toString (i_textLength it)) @
                    [0x20, 0x2551]) items),
              makeDivider (maxPathLength h (SRC_DIR h a) items) (maxSizeLength items)
                (maxCharsLength items) 0x255A 0x2567 0x2567 0x255D] @
           [0x0A] @ ascii ''Total files: '' @ toString (length items) @ [0x0A] @
           ascii ''Total characters: '' @ toLocaleString h (sum_list (map i_textLength items)) @
           [0x0A]) @ [0x0A]] @
       concat (map (\<lambda>it.
          [[0x0A] @ replicate 80 0x2550 @ [0x0A, 0x20, 0xD83D, 0xDCC4] @ ascii '' FILE: '' @
             relative (cwd h) (cwd h) (i_path it) @ [0x0A] @ replicate 80 0x2550 @ [0x0A, 0x0A],
           (if i_text it = [] then ascii ''[No extractable text]'' else i_text it) @
             [0x0A, 0x0A]]) items)"
proof -
  define items where "items = itemsForOutput (sortExtracted h (map (task h) files))"
  define out where "out = \<lparr>pagesJson = \<lparr>generatedAt = indexStamp r, source = SRC_DIR h a,
      pages = pagesOf (sortExtracted h (map (task h) files))\<rparr>,
    llmTxt = generateLLMTextStream h (corpusStamp r) items (SRC_DIR h a)\<rparr>"
  have ne: "files \<noteq> []" using f(1) by auto
  have "set (settleOrder r) = {0..<length (listHtmlFiles h (SRC_DIR h a) (pattern a))}"
    using order files by (simp add: mset_upt_set)
  from main_settled [OF this] ok ne have run: "main h a r = Some (Inr out)"
    by (simp add: out_def items_def files)
  have dist: "distinct files"
    by (simp add: files distinct_listHtmlFiles)
  have extracted: "extractTextFromHTML h g =
      \<lparr>r_filePath = g,
       r_text = (if trim (content g) = [] then []
           else normalizeText
             (case find (\<lambda>sel. 50 < length (trim (t g sel))) selectors of
                None \<Rightarrow> t g (ascii ''body'')
              | Some sel \<Rightarrow> t g sel)),
       r_error = None\<rparr>" if g: "g \<in> set files" "g \<noteq> f" for g
  proof (cases "trim (content g) = []")
    case True
    from others g have "readFile h g = Inr (content g)" by blast
    from extract_blank [OF this True] True show ?thesis by simp
  next
    case False
    from others g False have "readFile h g = Inr (content g)"
      "load h (content g) = Inr (doc0 g)" "removeNoise h (doc0 g) = Inr (doc g)"
      "\<forall>sel \<in> set selectors. textOf h sel (doc g) = Inr (t g sel)"
      by blast+
    from extract_ok [OF this(1) False this(2,3,4)] False show ?thesis by simp
  qed
  have good: "noError (task h g) \<longleftrightarrow> g \<noteq> f" if "g \<in> set files" for g
  proof (cases "g = f")
    case True
    with f show ?thesis by (simp add: noError_read_failed)
  next
    case False
    from extracted [OF that False] have "r_error (extractTextFromHTML h g) = None" by simp
    with False show ?thesis by (simp add: noError_no_error)
  qed
  have "mset (map i_path items) =
      image_mset e_path (filter_mset noError (mset (map (task h) files)))"
    by (simp add: items_def items_paths sortExtracted_def mset_sortBy)
  also have "\<dots> = mset (map e_path (filter noError (map (task h) files)))"
    by simp
  also have "map e_path (filter noError (map (task h) files)) =
      filter (\<lambda>g. noError (task h g)) files"
    by (simp add: filter_map comp_def task_path)
  also have "filter (\<lambda>g. noError (task h g)) files = filter (\<lambda>g. g \<noteq> f) files"
    by (rule filter_cong [OF refl]) (simp add: good)
  finally have pm: "mset (map i_path items) = mset (filter (\<lambda>g. g \<noteq> f) files)" .
  then have paths: "mset (map i_path items) = mset files - {#f#}"
    by (simp only: filter_neq_distinct [OF dist f(1)])
  have len: "length items = length files - 1"
  proof -
    have "length items = size (mset (map i_path items))" by simp
    also have "\<dots> = size (mset files - {#f#})" by (simp only: paths)
    also have "\<dots> = length files - 1"
      using f(1) by (simp add: size_Diff_singleton)
    finally show ?thesis .
  qed
  have pset: "set (map i_path items) = set (filter (\<lambda>g. g \<noteq> f) files)"
    by (rule mset_eq_setD) (rule pm)
  then have absent: "f \<notin> set (map i_path items)"
    by simp
  have each: "\<forall>it \<in> set items.
        i_text it =
          (if trim (content (i_path it)) = [] then []
           else normalizeText
             (case find (\<lambda>sel. 50 < length (trim (t (i_path it) sel))) selectors of
                None \<Rightarrow> t (i_path it) (ascii ''body'')
              | Some sel \<Rightarrow> t (i_path it) sel)) \<and>
        i_textLength it = length (i_text it) \<and>
        i_size it = (case stat h (i_path it) of None \<Rightarrow> 0 | Some n \<Rightarrow> n)"
  proof
    fix it assume it: "it \<in> set items"
    then have "i_path it \<in> set (map i_path items)" by simp
    with pset have g: "i_path it \<in> set files" "i_path it \<noteq> f" by simp_all
    from items_from_tasks [OF it [unfolded items_def]] extracted [OF g]
    show "i_text it =
          (if trim (content (i_path it)) = [] then []
           else normalizeText
             (case find (\<lambda>sel. 50 < length (trim (t (i_path it) sel))) selectors of
                None \<Rightarrow> t (i_path it) (ascii ''body'')
              | Some sel \<Rightarrow> t (i_path it) sel)) \<and>
        i_textLength it = length (i_text it) \<and>
        i_size it = (case stat h (i_path it) of None \<Rightarrow> 0 | Some n \<Rightarrow> n)"
      by simp
  qed
  have total: "fold (\<lambda>it sum. sum + i_textLength it) xs n = n + sum_list (map i_textLength xs)"
    for xs :: "item list" and n
    by (induction xs arbitrary: n) simp_all
  have rows: "map (tocBodyRow h (SRC_DIR h a) wp ws wc) items =
      map (\<lambda>it. [0x2551, 0x20] @ padEnd wp (relative (cwd h) (SRC_DIR h a) (i_path it)) @
                 [0x20, 0x2502, 0x20] @ padStart ws (toString (i_size it)) @
                 [0x20, 0x2502, 0x20] @ padStart wc (toString (i_textLength it)) @
                 [0x20, 0x2551]) items" for wp ws wc
    by (simp add: tocBodyRow_def tocRow_def tocPath_def)
  have toc: "makeTocSection h items (SRC_DIR h a) =
      (if items = [] then ascii ''No files were processed.''
         else
           join [0x0A]
             [makeDivider (maxPathLength h (SRC_DIR h a) items) (maxSizeLength items)
                (maxCharsLength items) 0x2554 0x2564 0x2564 0x2557,
              tocRow (maxPathLength h (SRC_DIR h a) items) (maxSizeLength items)
                (maxCharsLength items) headers_filePath headers_size headers_chars,
              makeDivider (maxPathLength h (SRC_DIR h a) items) (maxSizeLength items)
                (maxCharsLength items) 0x255F 0x253C 0x253C 0x2562,
              join [0x0A]
                (map (\<lambda>it.
                    [0x2551, 0x20] @
                    padEnd (maxPathLength h (SRC_DIR h a) items)
                      (relative (cwd h) (SRC_DIR h a) (i_path it)) @
                    [0x20, 0x2502, 0x20] @
                    padStart (maxSizeLength items) (toString (i_size it)) @
                    [0x20, 0x2502, 0x20] @
                    padStart (maxCharsLength items) (toString (i_textLength it)) @
                    [0x20, 0x2551]) items),
              makeDivider (maxPathLength h (SRC_DIR h a) items) (maxSizeLength items)
                (maxCharsLength items) 0x255A 0x2567 0x2567 0x255D] @
           [0x0A] @ ascii ''Total files: '' @ toString (length items) @ [0x0A] @
           ascii ''Total characters: '' @ toLocaleString h (sum_list (map i_textLength items)) @
           [0x0A])"
    unfolding makeTocSection_def tocLines_def Let_def rows tocSummary_def total
    by simp
  have secs: "map (section_writes h) items =
      map (\<lambda>it.
          [[0x0A] @ replicate 80 0x2550 @ [0x0A, 0x20, 0xD83D, 0xDCC4] @ ascii '' FILE: '' @
             relative (cwd h) (cwd h) (i_path it) @ [0x0A] @ replicate 80 0x2550 @ [0x0A, 0x0A],
           (if i_text it = [] then ascii ''[No extractable text]'' else i_text it) @
             [0x0A, 0x0A]]) items"
    by (simp add: section_writes_def makeFileHeader_def sectionPath_def repeat_def Let_def)
  have corpus: "llmTxt out =
       [ascii ''Generated: '' @ corpusStamp r @ [0x0A],
        ascii ''Source directory: '' @ SRC_DIR h a @ [0x0A],
        ascii ''Files processed: '' @ toString (length files - 1) @ [0x0A, 0x0A],
        makeTocSection h items (SRC_DIR h a) @ [0x0A]] @
       concat (map (section_writes h) items)"
    by (simp add: out_def generateLLMTextStream_def len)
  show ?thesis
    by (intro exI [of _ out] exI [of _ items] conjI run paths len absent each)
      (simp only: corpus toc secs)
qed

theorem read_failure_isolated_witness:
  "pathExists exampleHost (SRC_DIR exampleHost exampleArgv) \<and>
   1 \<le> concurrency exampleArgv \<and>
   listHtmlFiles exampleHost (SRC_DIR exampleHost exampleArgv) (pattern exampleArgv) =
     [ascii ''/w/site/a.html'', ascii ''/w/site/b.html''] \<and>
   mset (settleOrder exampleRun) =
     mset [0..<length [ascii ''/w/site/a.html'', ascii ''/w/site/b.html'']] \<and>
   readFile exampleHost (ascii ''/w/site/b.html'') = Inl (ascii ''EACCES'') \<and>
   ascii ''EACCES'' \<noteq> [] \<and>
   readFile exampleHost (ascii ''/w/site/a.html'') = Inr exampleText \<and>
   trim exampleText \<noteq> [] \<and>
   load exampleHost exampleText = Inr exampleText \<and>
   removeNoise exampleHost exampleText = Inr exampleText \<and>
   textOf exampleHost (ascii ''main'') exampleText = Inr (ascii ''Hello'') \<and>
   textOf exampleHost (ascii ''.content'') exampleText = Inr exampleText \<and>
   (\<exists>out (items :: item list). main exampleHost exampleArgv exampleRun = Some (Inr out) \<and>
      map i_path items = [ascii ''/w/site/a.html''] \<and>
      map i_text items = [ascii ''Hello world, this is a sufficiently  long piece of text.''] \<and>
      length (llmTxt out) = 6 \<and>
      llmTxt out ! 2 = ascii ''Files processed: 1'' @ [0x0A, 0x0A] \<and>
      llmTxt out ! 4 =
        [0x0A] @ replicate 80 0x2550 @ [0x0A, 0x20, 0xD83D, 0xDCC4] @
        ascii '' FILE: site/a.html'' @ [0x0A] @ replicate 80 0x2550 @ [0x0A, 0x0A] \<and>
      llmTxt out ! 5 =
        ascii ''Hello world, this is a sufficiently  long piece of text.'' @ [0x0A, 0x0A])"
proof -
  define t where "t = (\<lambda>g :: jsstring. \<lambda>sel. if sel = ascii ''main'' then take 5 exampleText
                          else if sel = ascii ''.content'' then exampleText
                          else if sel = ascii ''body'' then ascii ''Menu '' @ exampleText
                          else [])"
  have h1: "pathExists exampleHost (SRC_DIR exampleHost exampleArgv)"
    by (simp add: exampleHost_def)
  have h2: "1 \<le> concurrency exampleArgv"
    by (simp add: exampleArgv_def)
  have h3: "[ascii ''/w/site/a.html'', ascii ''/w/site/b.html''] =
      listHtmlFiles exampleHost (SRC_DIR exampleHost exampleArgv) (pattern exampleArgv)"
    by (simp only: example_files)
  have h4: "mset (settleOrder exampleRun) =
      mset [0..<length [ascii ''/w/site/a.html'', ascii ''/w/site/b.html'']]"
    by (simp add: exampleRun_def upt_rec)
  have h5: "ascii ''/w/site/b.html'' \<in> set [ascii ''/w/site/a.html'', ascii ''/w/site/b.html'']"
    by simp
  have h6: "readFile exampleHost (ascii ''/w/site/b.html'') = Inl (ascii ''EACCES'')"
    by code_simp
  have h7: "ascii ''EACCES'' \<noteq> []"
    by (simp add: ascii_def)
  have ra: "readFile exampleHost (ascii ''/w/site/a.html'') = Inr exampleText"
    by code_simp
  have nb: "trim exampleText \<noteq> []"
    by code_simp
  have l: "load exampleHost exampleText = Inr exampleText"
    by (simp add: exampleHost_def)
  have n: "removeNoise exampleHost exampleText = Inr exampleText"
    by (simp add: removeNoise_def thenTry_def exampleHost_def)
  have tx: "\<forall>sel \<in> set selectors. textOf exampleHost sel exampleText = Inr (t g sel)" for g
    by (simp add: exampleHost_def t_def)
  have t1: "textOf exampleHost (ascii ''main'') exampleText = Inr (ascii ''Hello'')"
    by code_simp
  have t2: "textOf exampleHost (ascii ''.content'') exampleText = Inr exampleText"
    by code_simp
  have ab: "ascii ''/w/site/a.html'' \<noteq> ascii ''/w/site/b.html''"
    by (simp add: ascii_def)
  have h8: "\<forall>g \<in> set [ascii ''/w/site/a.html'', ascii ''/w/site/b.html''].
      g \<noteq> ascii ''/w/site/b.html'' \<longrightarrow>
        readFile exampleHost g = Inr ((\<lambda>g. exampleText) g) \<and>
        (trim ((\<lambda>g. exampleText) g) \<noteq> [] \<longrightarrow>
           load exampleHost ((\<lambda>g. exampleText) g) = Inr ((\<lambda>g. exampleText) g) \<and>
           removeNoise exampleHost ((\<lambda>g. exampleText) g) = Inr ((\<lambda>g. exampleText) g) \<and>
           (\<forall>sel \<in> set selectors. textOf exampleHost sel ((\<lambda>g. exampleText) g) = Inr (t g sel)))"
    using ra l n tx by simp
  have v: "normalizeText
             (case find (\<lambda>sel. 50 < length (trim (t g sel))) selectors of
                None \<Rightarrow> t g (ascii ''body'')
              | Some sel \<Rightarrow> t g sel) =
           ascii ''Hello world, this is a sufficiently  long piece of text.''" for g
    unfolding t_def by code_simp
  have rel: "relative (cwd exampleHost) (cwd exampleHost) (ascii ''/w/site/a.html'') =
      ascii ''site/a.html''"
    by code_simp
  from read_failure_isolated [OF h1 h2 h3 h4 h5 h6 h7 h8]
  obtain out items where
    run: "main exampleHost exampleArgv exampleRun = Some (Inr out)"
    and pm: "mset (map i_path items) =
      mset [ascii ''/w/site/a.html'', ascii ''/w/site/b.html''] - {#ascii ''/w/site/b.html''#}"
    and each: "\<forall>it \<in> set items.
        i_text it =
          (if trim exampleText = [] then []
           else normalizeText
             (case find (\<lambda>sel. 50 < length (trim (t (i_path it) sel))) selectors of
                None \<Rightarrow> t (i_path it) (ascii ''body'')
              | Some sel \<Rightarrow> t (i_path it) sel)) \<and>
        i_textLength it = length (i_text it) \<and>
        i_size it = (case stat exampleHost (i_path it) of None \<Rightarrow> 0 | Some n \<Rightarrow> n)"
    and corpus: "llmTxt out = [ascii ''Generated: '' @ corpusStamp exampleRun @ [0x0A],
        ascii ''Source directory: '' @ SRC_DIR exampleHost exampleArgv @ [0x0A],
        ascii ''Files processed: '' @
          toString (length [ascii ''/w/site/a.html'', ascii ''/w/site/b.html''] - 1) @ [0x0A, 0x0A],
        (if items = [] then ascii ''No files were processed.''
         else
           join [0x0A]
             [makeDivider (maxPathLength exampleHost (SRC_DIR exampleHost exampleArgv) items)
                (maxSizeLength items) (maxCharsLength items) 0x2554 0x2564 0x2564 0x2557,
              tocRow (maxPathLength exampleHost (SRC_DIR exampleHost exampleArgv) items)
                (maxSizeLength items) (maxCharsLength items)
                headers_filePath headers_size headers_chars,
              makeDivider (maxPathLength exampleHost (SRC_DIR exampleHost exampleArgv) items)
                (maxSizeLength items) (maxCharsLength items) 0x255F 0x253C 0x253C 0x2562,
              join [0x0A]
                (map (\<lambda>it.
                    [0x2551, 0x20] @
                    padEnd (maxPathLength exampleHost (SRC_DIR exampleHost exampleArgv) items)
                      (relative (cwd exampleHost) (SRC_DIR exampleHost exampleArgv) (i_path it)) @
                    [0x20, 0x2502, 0x20] @
                    padStart (maxSizeLength items) (toString (i_size it)) @
                    [0x20, 0x2502, 0x20] @
                    padStart (maxCharsLength items) (toString (i_textLength it)) @
                    [0x20, 0x2551]) items),
              makeDivider (maxPathLength exampleHost (SRC_DIR exampleHost exampleArgv) items)
                (maxSizeLength items) (maxCharsLength items) 0x255A 0x2567 0x2567 0x255D] @
           [0x0A] @ ascii ''Total files: '' @ toString (length items) @ [0x0A] @
           ascii ''Total characters: '' @
           toLocaleString exampleHost (sum_list (map i_textLength items)) @
           [0x0A]) @ [0x0A]] @
       concat (map (\<lambda>it.
          [[0x0A] @ replicate 80 0x2550 @ [0x0A, 0x20, 0xD83D, 0xDCC4] @ ascii '' FILE: '' @
             relative (cwd exampleHost) (cwd exampleHost) (i_path it) @ [0x0A] @
             replicate 80 0x2550 @ [0x0A, 0x0A],
           (if i_text it = [] then ascii ''[No extractable text]'' else i_text it) @
             [0x0A, 0x0A]]) items)"
    by blast
  from pm ab have "mset (map i_path items) = {#ascii ''/w/site/a.html''#}"
    by simp
  then have paths: "map i_path items = [ascii ''/w/site/a.html'']"
    by (simp only: mset_single_iff)
  then obtain it where items: "items = [it]" and p: "i_path it = ascii ''/w/site/a.html''"
    by auto
  from each items nb have tx': "i_text it =
      ascii ''Hello world, this is a sufficiently  long piece of text.''"
    by (simp add: v)
  have ne: "ascii ''Hello world, this is a sufficiently  long piece of text.'' \<noteq> []"
    by (simp add: ascii_def)
  have texts: "map i_text items = [ascii ''Hello world, this is a sufficiently  long piece of text.'']"
    by (simp add: items tx')
  have one: "toString (Suc 0) = ascii ''1''"
    by (simp add: ascii_def)
  have fileline: "ascii '' FILE: '' @ ascii ''site/a.html'' = ascii '' FILE: site/a.html''"
    by (simp add: ascii_def)
  have len: "length (llmTxt out) = 6"
    unfolding corpus items by simp
  have c2: "llmTxt out ! 2 = ascii ''Files processed: 1'' @ [0x0A, 0x0A]"
    unfolding corpus by (simp add: one ascii_def)
  have c4: "llmTxt out ! 4 =
        [0x0A] @ replicate 80 0x2550 @ [0x0A, 0x20, 0xD83D, 0xDCC4] @
        ascii '' FILE: site/a.html'' @ [0x0A] @ replicate 80 0x2550 @ [0x0A, 0x0A]"
    unfolding corpus items by (simp add: p rel nth_append flip: fileline)
  have c5: "llmTxt out ! 5 =
        ascii ''Hello world, this is a sufficiently  long piece of text.'' @ [0x0A, 0x0A]"
    unfolding corpus items by (simp add: tx' ne nth_append)
  have found: "\<exists>out (items :: item list). main exampleHost exampleArgv exampleRun = Some (Inr out) \<and>
      map i_path items = [ascii ''/w/site/a.html''] \<and>
      map i_text items = [ascii ''Hello world, this is a sufficiently  long piece of text.''] \<and>
      length (llmTxt out) = 6 \<and>
      llmTxt out ! 2 = ascii ''Files processed: 1'' @ [0x0A, 0x0A] \<and>
      llmTxt out ! 4 =
        [0x0A] @ replicate 80 0x2550 @ [0x0A, 0x20, 0xD83D, 0xDCC4] @
        ascii '' FILE: site/a.html'' @ [0x0A] @ replicate 80 0x2550 @ [0x0A, 0x0A] \<and>
      llmTxt out ! 5 =
        ascii ''Hello world, this is a sufficiently  long piece of text.'' @ [0x0A, 0x0A]"
  proof (intro exI conjI)
    show "main exampleHost exampleArgv exampleRun = Some (Inr out)" by (rule run)
    show "map i_path items = [ascii ''/w/site/a.html'']" by (rule paths)
    show "map i_text items = [ascii ''Hello world, this is a sufficiently  long piece of text.'']"
      by (rule texts)
    show "length (llmTxt out) = 6" by (rule len)
    show "llmTxt out ! 2 = ascii ''Files processed: 1'' @ [0x0A, 0x0A]" by (rule c2)
    show "llmTxt out ! 4 =
        [0x0A] @ replicate 80 0x2550 @ [0x0A, 0x20, 0xD83D, 0xDCC4] @
        ascii '' FILE: site/a.html'' @ [0x0A] @ replicate 80 0x2550 @ [0x0A, 0x0A]" by (rule c4)
    show "llmTxt out ! 5 =
        ascii ''Hello world, this is a sufficiently  long piece of text.'' @ [0x0A, 0x0A]"
      by (rule c5)
  qed
  show ?thesis
    by (intro conjI h1 h2 h3 [symmetric] h4 h6 h7 ra nb l n t1 t2 found)
qed

subsection \<open>The order of the results\<close>

text \<open>
  C5, the claim as written: the results are sorted by their relative path in lexicographic
  order. The comparison is \<open>localeCompare\<close>, the collation of the host's locale. On the
  host whose collation ignores case, the files \<open>B.html\<close> and \<open>a.html\<close> come out as
  \<open>site/a.html\<close>, \<open>site/B.html\<close>, which is not the lexicographic order of the code units.
\<close>

theorem aggregator_order_counterexample:
  "map e_rel (sortExtracted collatingHost (map (task collatingHost)
      (listHtmlFiles collatingHost (SRC_DIR collatingHost exampleArgv) (pattern exampleArgv)))) =
     [ascii ''site/a.html'', ascii ''site/B.html''] \<and>
   \<not> sorted [ascii ''site/a.html'', ascii ''site/B.html'']"
proof -
  have files: "listHtmlFiles collatingHost (SRC_DIR collatingHost exampleArgv) (pattern exampleArgv) =
      [ascii ''/w/site/B.html'', ascii ''/w/site/a.html'']"
    by code_simp
  have rB: "e_rel (task collatingHost (ascii ''/w/site/B.html'')) = ascii ''site/B.html''"
    unfolding task_rel by code_simp
  have ra: "e_rel (task collatingHost (ascii ''/w/site/a.html'')) = ascii ''site/a.html''"
    unfolding task_rel by code_simp
  have c: "localeCompare collatingHost (ascii ''site/B.html'') (ascii ''site/a.html'') = 1"
    by code_simp
  have ns: "\<not> sorted [ascii ''site/a.html'', ascii ''site/B.html'']"
    by code_simp
  have "map e_rel (sortExtracted collatingHost (map (task collatingHost)
      (listHtmlFiles collatingHost (SRC_DIR collatingHost exampleArgv) (pattern exampleArgv)))) =
     [ascii ''site/a.html'', ascii ''site/B.html'']"
    unfolding files by (simp add: sortExtracted_def sortBy_def rB ra c)
  then show ?thesis
    using ns by (rule conjI)
qed

text \<open>
  C5, amended: the results are sorted by their path relative to the working directory of
  the process, compared with \<open>localeCompare\<close>: whenever that comparison is total and
  transitive on the paths at hand, the sorted list is ordered by it; it is a permutation of
  the executor's results, nothing added, dropped or changed; and the successful slice is
  the sorted list without the results that carry a failure reason.
\<close>

theorem aggregator_sorts_by_localeCompare:
  assumes tot: "\<forall>p \<in> set (map e_rel xs). \<forall>q \<in> set (map e_rel xs).
        localeCompare h p q \<le> 0 \<or> localeCompare h q p \<le> 0"
    and tr: "\<forall>p \<in> set (map e_rel xs). \<forall>q \<in> set (map e_rel xs). \<forall>s \<in> set (map e_rel xs).
        localeCompare h p q \<le> 0 \<longrightarrow> localeCompare h q s \<le> 0 \<longrightarrow> localeCompare h p s \<le> 0"
  shows "sorted_wrt (\<lambda>a b. localeCompare h (e_rel a) (e_rel b) \<le> 0) (sortExtracted h xs) \<and>
     mset (sortExtracted h xs) = mset xs \<and>
     successfulExtractions (sortExtracted h xs) =
       filter (\<lambda>e. e_error e = None \<or> e_error e = Some []) (sortExtracted h xs) \<and>
     (\<forall>f. e_rel (task h f) = relative (cwd h) (cwd h) f)"
proof -
  have "sorted_wrt (\<lambda>a b. localeCompare h (e_rel a) (e_rel b) \<le> 0)
      (sortBy (\<lambda>a b. localeCompare h (e_rel a) (e_rel b)) xs)"
  proof (rule sorted_sortBy)
    show "localeCompare h (e_rel a) (e_rel b) \<le> 0 \<or> localeCompare h (e_rel b) (e_rel a) \<le> 0"
      if "a \<in> set xs" "b \<in> set xs" for a b
      using tot that by simp
    show "localeCompare h (e_rel a) (e_rel c) \<le> 0"
      if "a \<in> set xs" "b \<in> set xs" "c \<in> set xs"
        "localeCompare h (e_rel a) (e_rel b) \<le> 0" "localeCompare h (e_rel b) (e_rel c) \<le> 0"
      for a b c
    proof -
      have "e_rel a \<in> set (map e_rel xs)" "e_rel b \<in> set (map e_rel xs)"
        "e_rel c \<in> set (map e_rel xs)"
        using that(1-3) by simp_all
      with tr that(4,5) show ?thesis by blast
    qed
  qed
  moreover have "successfulExtractions ys = filter (\<lambda>e. e_error e = None \<or> e_error e = Some []) ys"
    for ys
    unfolding successfulExtractions_def
    by (rule filter_cong [OF refl]) (simp add: noError_def split: option.splits)
  ultimately show ?thesis
    by (simp add: sortExtracted_def mset_sortBy task_rel)
qed

theorem aggregator_sorts_by_localeCompare_witness:
  "localeCompare collatingHost (ascii ''site/B.html'') (ascii ''site/a.html'') = 1 \<and>
   localeCompare collatingHost (ascii ''site/a.html'') (ascii ''site/B.html'') = - 1 \<and>
   localeCompare collatingHost (ascii ''site/a.html'') (ascii ''site/a.html'') = 0 \<and>
   localeCompare collatingHost (ascii ''site/B.html'') (ascii ''site/B.html'') = 0 \<and>
   map e_rel (map (task collatingHost) [ascii ''/w/site/B.html'', ascii ''/w/site/a.html'']) =
     [ascii ''site/B.html'', ascii ''site/a.html''] \<and>
   sorted_wrt (\<lambda>a b. localeCompare collatingHost (e_rel a) (e_rel b) \<le> 0)
     (sortExtracted collatingHost
        (map (task collatingHost) [ascii ''/w/site/B.html'', ascii ''/w/site/a.html''])) \<and>
   mset (sortExtracted collatingHost
        (map (task collatingHost) [ascii ''/w/site/B.html'', ascii ''/w/site/a.html''])) =
     mset (map (task collatingHost) [ascii ''/w/site/B.html'', ascii ''/w/site/a.html''])"
proof -
  have keys: "map e_rel (map (task collatingHost) [ascii ''/w/site/B.html'', ascii ''/w/site/a.html'']) =
     [ascii ''site/B.html'', ascii ''site/a.html'']"
    by (simp add: task_rel) code_simp
  have Ba: "localeCompare collatingHost (ascii ''site/B.html'') (ascii ''site/a.html'') = 1"
    by code_simp
  have aB: "localeCompare collatingHost (ascii ''site/a.html'') (ascii ''site/B.html'') = - 1"
    by code_simp
  have aa: "localeCompare collatingHost (ascii ''site/a.html'') (ascii ''site/a.html'') = 0"
    by code_simp
  have BB: "localeCompare collatingHost (ascii ''site/B.html'') (ascii ''site/B.html'') = 0"
    by code_simp
  have tot: "\<forall>p \<in> set [ascii ''site/B.html'', ascii ''site/a.html''].
    \<forall>q \<in> set [ascii ''site/B.html'', ascii ''site/a.html''].
        localeCompare collatingHost p q \<le> 0 \<or> localeCompare collatingHost q p \<le> 0"
    by (simp add: Ba aB aa BB)
  have tr: "\<forall>p \<in> set [ascii ''site/B.html'', ascii ''site/a.html''].
    \<forall>q \<in> set [ascii ''site/B.html'', ascii ''site/a.html''].
    \<forall>s \<in> set [ascii ''site/B.html'', ascii ''site/a.html''].
        localeCompare collatingHost p q \<le> 0 \<longrightarrow> localeCompare collatingHost q s \<le> 0 \<longrightarrow>
        localeCompare collatingHost p s \<le> 0"
    by (simp add: Ba aB aa BB)
  note c = aggregator_sorts_by_localeCompare [of "map (task collatingHost)
      [ascii ''/w/site/B.html'', ascii ''/w/site/a.html'']" collatingHost,
      unfolded keys, OF tot tr]
  show ?thesis
    by (intro conjI Ba aB aa BB keys c [THEN conjunct1] c [THEN conjunct2, THEN conjunct1])
qed

subsection \<open>The normalisation of the text\<close>



subsection \<open>The two relative paths of a file\<close>

text \<open>
  C10, the claim as written: whenever the working directory differs from the source root,
  the path in a file's section delimiter differs from the path in its row of the table. A
  pattern may leave the source root: with the working directory \<open>/x\<close>, the source root
  \<open>/y\<close> and the pattern \<open>../other/*.html\<close>, the file \<open>/other/f.html\<close> is discovered, and
  both its delimiter and its row show \<open>../other/f.html\<close>.
\<close>

theorem section_and_toc_paths_counterexample:
  "listHtmlFiles outsideHost (SRC_DIR outsideHost outsideArgv) (pattern outsideArgv) =
     [i_path outsideItem] \<and>
   cwd outsideHost = ascii ''/x'' \<and>
   SRC_DIR outsideHost outsideArgv = ascii ''/y'' \<and>
   cwd outsideHost \<noteq> SRC_DIR outsideHost outsideArgv \<and>
   sectionPath outsideHost outsideItem = ascii ''../other/f.html'' \<and>
   tocPath outsideHost (SRC_DIR outsideHost outsideArgv) outsideItem = ascii ''../other/f.html'' \<and>
   generateLLMTextStream outsideHost (ascii ''T'') [outsideItem] (ascii ''/y'') ! 4 =
     [0x0A] @ replicate 80 0x2550 @ [0x0A, 0x20, 0xD83D, 0xDCC4] @
     ascii '' FILE: ../other/f.html'' @ [0x0A] @ replicate 80 0x2550 @ [0x0A, 0x0A] \<and>
   tocLines outsideHost [outsideItem] (ascii ''/y'') ! 3 =
     [0x2551, 0x20] @ ascii ''../other/f.html'' @ [0x20, 0x2502, 0x20] @ ascii '' 120'' @
     [0x20, 0x2502, 0x20] @ ascii ''    5'' @ [0x20, 0x2551]"
  by code_simp

text \<open>
  C10, amended: in every corpus the delimiter of a file's section shows its path relative
  to the working directory of the process, and its row of the table of contents shows its
  path relative to the source root; for a file that lies beneath the source root the two
  differ whenever the working directory is not the source root.
\<close>

theorem section_and_toc_paths:
  "(\<forall>i < length items.
      generateLLMTextStream h now items srcDir ! (4 + 2 * i) =
        [0x0A] @ replicate 80 0x2550 @ [0x0A, 0x20, 0xD83D, 0xDCC4] @ ascii '' FILE: '' @
        relative (cwd h) (cwd h) (i_path (items ! i)) @ [0x0A] @ replicate 80 0x2550 @
        [0x0A, 0x0A]) \<and>
   (items \<noteq> [] \<longrightarrow>
      generateLLMTextStream h now items srcDir ! 3 =
        join [0x0A] (tocLines h items srcDir) @ tocSummary h items @ [0x0A] \<and>
      tocLines h items srcDir ! 3 =
        join [0x0A]
          (map (\<lambda>it.
              [0x2551, 0x20] @
              padEnd (maxPathLength h srcDir items) (relative (cwd h) srcDir (i_path it)) @
              [0x20, 0x2502, 0x20] @
              padStart (maxSizeLength items) (toString (i_size it)) @
              [0x20, 0x2502, 0x20] @
              padStart (maxCharsLength items) (toString (i_textLength it)) @
              [0x20, 0x2551]) items)) \<and>
   (strict_prefix (resolveParts (cwd h) srcDir) (resolveParts (cwd h) (i_path it)) \<longrightarrow>
    resolve (cwd h) (cwd h) \<noteq> resolve (cwd h) srcDir \<longrightarrow>
    relative (cwd h) (cwd h) (i_path it) \<noteq> relative (cwd h) srcDir (i_path it))"
proof -
  have head: "\<forall>i < length items.
      generateLLMTextStream h now items srcDir ! (4 + 2 * i) =
        [0x0A] @ replicate 80 0x2550 @ [0x0A, 0x20, 0xD83D, 0xDCC4] @ ascii '' FILE: '' @
        relative (cwd h) (cwd h) (i_path (items ! i)) @ [0x0A] @ replicate 80 0x2550 @
        [0x0A, 0x0A]"
  proof (intro allI impI)
    fix i assume i: "i < length items"
    have secs: "map (section_writes h) items =
      map (\<lambda>it.
          [[0x0A] @ replicate 80 0x2550 @ [0x0A, 0x20, 0xD83D, 0xDCC4] @ ascii '' FILE: '' @
             relative (cwd h) (cwd h) (i_path it) @ [0x0A] @ replicate 80 0x2550 @ [0x0A, 0x0A],
           (if i_text it = [] then ascii ''[No extractable text]'' else i_text it) @
             [0x0A, 0x0A]]) items"
      by (simp add: section_writes_def makeFileHeader_def sectionPath_def repeat_def Let_def)
    have "generateLLMTextStream h now items srcDir ! (4 + 2 * i) =
        concat (map (section_writes h) items) ! (2 * i)"
      by (simp add: generateLLMTextStream_def nth_append)
    also have "\<dots> = [0x0A] @ replicate 80 0x2550 @ [0x0A, 0x20, 0xD83D, 0xDCC4] @
        ascii '' FILE: '' @ relative (cwd h) (cwd h) (i_path (items ! i)) @ [0x0A] @
        replicate 80 0x2550 @ [0x0A, 0x0A]"
      unfolding secs by (rule nth_concat_pairs [OF i, THEN conjunct1])
    finally show "generateLLMTextStream h now items srcDir ! (4 + 2 * i) =
        [0x0A] @ replicate 80 0x2550 @ [0x0A, 0x20, 0xD83D, 0xDCC4] @ ascii '' FILE: '' @
        relative (cwd h) (cwd h) (i_path (items ! i)) @ [0x0A] @ replicate 80 0x2550 @
        [0x0A, 0x0A]" .
  qed
  have row: "items \<noteq> [] \<longrightarrow>
      generateLLMTextStream h now items srcDir ! 3 =
        join [0x0A] (tocLines h items srcDir) @ tocSummary h items @ [0x0A] \<and>
      tocLines h items srcDir ! 3 =
        join [0x0A]
          (map (\<lambda>it.
              [0x2551, 0x20] @
              padEnd (maxPathLength h srcDir items) (relative (cwd h) srcDir (i_path it)) @
              [0x20, 0x2502, 0x20] @
              padStart (maxSizeLength items) (toString (i_size it)) @
              [0x20, 0x2502, 0x20] @
              padStart (maxCharsLength items) (toString (i_textLength it)) @
              [0x20, 0x2551]) items)"
  proof -
    have "tocBodyRow h srcDir wp ws wc =
        (\<lambda>it. [0x2551, 0x20] @ padEnd wp (relative (cwd h) srcDir (i_path it)) @
              [0x20, 0x2502, 0x20] @ padStart ws (toString (i_size it)) @
              [0x20, 0x2502, 0x20] @ padStart wc (toString (i_textLength it)) @
              [0x20, 0x2551])" for wp ws wc
      by (rule ext) (simp add: tocBodyRow_def tocRow_def tocPath_def del: toString.simps)
    then show ?thesis
      by (simp add: generateLLMTextStream_def makeTocSection_def tocLines_def Let_def
          del: toString.simps)
  qed
  have differ: "relative (cwd h) (cwd h) (i_path it) \<noteq> relative (cwd h) srcDir (i_path it)"
    if below: "strict_prefix (resolveParts (cwd h) srcDir) (resolveParts (cwd h) (i_path it))"
      and other: "resolve (cwd h) (cwd h) \<noteq> resolve (cwd h) srcDir"
  proof
    define C where "C = resolveParts (cwd h) (cwd h)"
    define S where "S = resolveParts (cwd h) srcDir"
    define P where "P = resolveParts (cwd h) (i_path it)"
    assume same: "relative (cwd h) (cwd h) (i_path it) = relative (cwd h) srcDir (i_path it)"
    from below obtain R where P: "P = S @ R" and R: "R \<noteq> []"
      unfolding S_def P_def by (auto simp: strict_prefix_def prefix_def)
    have CS: "C \<noteq> S"
      using other by (auto simp: resolve_def C_def S_def)
    have goodP: "\<forall>p \<in> set P. p \<noteq> [] \<and> 0x2F \<notin> set p \<and> p \<noteq> dotdot"
      unfolding P_def using resolveParts_good by blast
    obtain up down where dc: "dropCommon C P = (up, down)"
      by (cases "dropCommon C P") auto
    from dropCommon_split [OF dc] obtain cs where C: "C = cs @ up" and Pc: "P = cs @ down"
      by blast
    have toc: "relative (cwd h) srcDir (i_path it) = join [0x2F] R"
      by (simp add: relative_def dropCommon_prefix P [unfolded P_def S_def] flip: S_def)
    have sec: "relative (cwd h) (cwd h) (i_path it) = join [0x2F] (map (\<lambda>_. dotdot) up @ down)"
      using dc by (simp add: relative_def C_def P_def)
    have g1: "\<forall>p \<in> set (map (\<lambda>_. dotdot) up @ down). p \<noteq> [] \<and> 0x2F \<notin> set p"
      using goodP Pc by (auto simp: dotdot_def)
    have g2: "\<forall>p \<in> set R. p \<noteq> [] \<and> 0x2F \<notin> set p"
      using goodP P by auto
    from same have "join [0x2F] (map (\<lambda>_. dotdot) up @ down) = join [0x2F] R"
      by (simp only: toc sec)
    from join_slash_inj [OF g1 g2 this] have eq: "map (\<lambda>_. dotdot) up @ down = R" .
    show False
    proof (cases up)
      case Nil
      with eq have "down = R" by simp
      with P Pc have "cs = S" by simp
      with C Nil have "C = S" by simp
      with CS show False ..
    next
      case (Cons u us)
      with eq have "dotdot \<in> set R" by auto
      with P have "dotdot \<in> set P" by simp
      with goodP show False by blast
    qed
  qed
  from head row differ show ?thesis by blast
qed

theorem section_and_toc_paths_witness:
  "strict_prefix (resolveParts (cwd exampleHost) (ascii ''/w/site''))
     (resolveParts (cwd exampleHost) (i_path exampleItem)) \<and>
   resolve (cwd exampleHost) (cwd exampleHost) \<noteq> resolve (cwd exampleHost) (ascii ''/w/site'') \<and>
   relative (cwd exampleHost) (cwd exampleHost) (i_path exampleItem) = ascii ''site/a.html'' \<and>
   relative (cwd exampleHost) (ascii ''/w/site'') (i_path exampleItem) = ascii ''a.html'' \<and>
   relative (cwd exampleHost) (cwd exampleHost) (i_path exampleItem) \<noteq>
     relative (cwd exampleHost) (ascii ''/w/site'') (i_path exampleItem) \<and>
   [exampleItem] \<noteq> [] \<and>
   generateLLMTextStream exampleHost (ascii ''T'') [exampleItem] (ascii ''/w/site'') ! 4 =
     [0x0A] @ replicate 80 0x2550 @ [0x0A, 0x20, 0xD83D, 0xDCC4] @ ascii '' FILE: '' @
     ascii ''site/a.html'' @ [0x0A] @ replicate 80 0x2550 @ [0x0A, 0x0A]"
proof -
  have below: "strict_prefix (resolveParts (cwd exampleHost) (ascii ''/w/site''))
     (resolveParts (cwd exampleHost) (i_path exampleItem))"
    by code_simp
  have other: "resolve (cwd exampleHost) (cwd exampleHost) \<noteq>
      resolve (cwd exampleHost) (ascii ''/w/site'')"
    by code_simp
  have v1: "relative (cwd exampleHost) (cwd exampleHost) (i_path exampleItem) = ascii ''site/a.html''"
    by code_simp
  have v2: "relative (cwd exampleHost) (ascii ''/w/site'') (i_path exampleItem) = ascii ''a.html''"
    by code_simp
  note T = section_and_toc_paths [where h = exampleHost and it = exampleItem
      and srcDir = "ascii ''/w/site''" and items = "[exampleItem]" and now = "ascii ''T''"]
  note T3 = T [THEN conjunct2, THEN conjunct2, THEN mp, OF below, THEN mp, OF other]
  have ne: "[exampleItem] \<noteq> []"
    by simp
  have "generateLLMTextStream exampleHost (ascii ''T'') [exampleItem] (ascii ''/w/site'') ! (4 + 2 * 0) =
     [0x0A] @ replicate 80 0x2550 @ [0x0A, 0x20, 0xD83D, 0xDCC4] @ ascii '' FILE: '' @
     relative (cwd exampleHost) (cwd exampleHost) (i_path ([exampleItem] ! 0)) @ [0x0A] @
     replicate 80 0x2550 @ [0x0A, 0x0A]"
    using T [THEN conjunct1, THEN spec, of 0] by simp
  then have T1: "generateLLMTextStream exampleHost (ascii ''T'') [exampleItem] (ascii ''/w/site'') ! 4 =
     [0x0A] @ replicate 80 0x2550 @ [0x0A, 0x20, 0xD83D, 0xDCC4] @ ascii '' FILE: '' @
     ascii ''site/a.html'' @ [0x0A] @ replicate 80 0x2550 @ [0x0A, 0x0A]"
    by (simp add: v1)
  show ?thesis
    by (intro conjI below other v1 v2 T3 ne T1)
qed

end
